theory Spec2Isabelle
  imports Main
begin

section \<open>Wire types and reduction operators\<close>

text \<open>
  The module \<^verbatim>\<open>cupyx/distributed/_comm.py\<close> reads the constants
  \<^verbatim>\<open>nccl.NCCL_INT8\<close>, ..., \<^verbatim>\<open>nccl.NCCL_SUM\<close>, ... of the
  transport binding. They are enumerations of the transport, kept here as datatypes.
\<close>

datatype nccl_dtype =
    NCCL_INT8 | NCCL_UINT8 | NCCL_INT32 | NCCL_UINT32 | NCCL_INT64 | NCCL_UINT64
  | NCCL_FLOAT16 | NCCL_FLOAT32 | NCCL_FLOAT64

datatype nccl_op = NCCL_SUM | NCCL_PROD | NCCL_MAX | NCCL_MIN

text \<open>The dictionary \<^verbatim>\<open>_nccl_dtypes\<close>, keyed by \<^verbatim>\<open>dtype.char\<close>.\<close>

definition nccl_dtypes :: "char \<rightharpoonup> nccl_dtype" where
  "nccl_dtypes =
     [CHR ''b'' \<mapsto> NCCL_INT8,
      CHR ''B'' \<mapsto> NCCL_UINT8,
      CHR ''i'' \<mapsto> NCCL_INT32,
      CHR ''I'' \<mapsto> NCCL_UINT32,
      CHR ''l'' \<mapsto> NCCL_INT64,
      CHR ''L'' \<mapsto> NCCL_UINT64,
      CHR ''q'' \<mapsto> NCCL_INT64,
      CHR ''Q'' \<mapsto> NCCL_UINT64,
      CHR ''e'' \<mapsto> NCCL_FLOAT16,
      CHR ''f'' \<mapsto> NCCL_FLOAT32,
      CHR ''d'' \<mapsto> NCCL_FLOAT64,
      CHR ''F'' \<mapsto> NCCL_FLOAT32,
      CHR ''D'' \<mapsto> NCCL_FLOAT64]"

text \<open>The dictionary \<^verbatim>\<open>_nccl_ops\<close>.\<close>

definition nccl_ops :: "string \<rightharpoonup> nccl_op" where
  "nccl_ops =
     [''sum'' \<mapsto> NCCL_SUM,
      ''prod'' \<mapsto> NCCL_PROD,
      ''max'' \<mapsto> NCCL_MAX,
      ''min'' \<mapsto> NCCL_MIN]"

section \<open>Arrays, streams and the backend object\<close>

text \<open>
  The arrays handed to the backend are objects of the array library. The model keeps of
  an array exactly what \<^verbatim>\<open>_comm.py\<close> reads from it:
  \<^item> \<^verbatim>\<open>a.dtype.char\<close>, \<^verbatim>\<open>a.size\<close> and \<^verbatim>\<open>a.data.ptr\<close>, read of whole
    arrays and of leading slices \<^verbatim>\<open>a[i]\<close> alike (record \<open>buffer\<close>);
  \<^item> \<^verbatim>\<open>a.flags.c_contiguous\<close>, \<^verbatim>\<open>a.flags.f_contiguous\<close>, \<^verbatim>\<open>a.shape\<close>, the
    leading slices \<^verbatim>\<open>a[0]\<close>, \<^verbatim>\<open>a[1]\<close>, ... and the attribute
    \<^verbatim>\<open>a.data_ptr\<close>, read of whole arrays only (record \<open>ndarray\<close>).
  The attribute \<^verbatim>\<open>data_ptr\<close> is optional: the arrays of the array library define
  \<^verbatim>\<open>data\<close> (with its \<^verbatim>\<open>ptr\<close>) and no \<^verbatim>\<open>data_ptr\<close>, so for them the field is
  \<open>None\<close> and reading it raises \<^verbatim>\<open>AttributeError\<close>.
\<close>

record memory_pointer =
  ptr :: nat

record array_flags =
  c_contiguous :: bool
  f_contiguous :: bool

record buffer =
  dtype_char :: char
  arr_size :: nat
  data :: memory_pointer

record ndarray = buffer +
  flags :: array_flags
  shape :: "nat list"
  slices :: "buffer list"
  data_ptr :: "nat option"

text \<open>
  What the array library guarantees of an array of at least one dimension: it has as
  many leading slices as its first dimension says, each of the array's element type, and
  together they hold the array's elements.
\<close>

definition wf_ndarray :: "ndarray \<Rightarrow> bool" where
  "wf_ndarray a =
     (case shape a of
        [] \<Rightarrow> slices a = [] \<and> arr_size a = 1
      | d # ds \<Rightarrow>
          length (slices a) = d \<and> arr_size a = d * prod_list ds \<and>
          list_all (\<lambda>s. dtype_char s = dtype_char a \<and> arr_size s = prod_list ds) (slices a))"

text \<open>
  The object \<^verbatim>\<open>self\<close>: the group size and the own rank, set by the constructor. The
  stream that \<^verbatim>\<open>cupy.cuda.stream.get_current_stream()\<close> answers at the time of a call
  is ambient state of the process; it travels with \<open>self\<close> as \<open>current_stream\<close>
  (the stream's \<^verbatim>\<open>ptr\<close>).
\<close>

record NCCLBackend =
  n_devices :: int
  rank :: int
  current_stream :: nat

section \<open>Exceptions and calls to the outside\<close>

datatype message =
    Not_contiguous
  | Unknown_dtype char
  | Unknown_op string
  | Scatter_in_array_shape
  | Gather_out_array_shape
  | All_to_all_in_array_shape
  | All_to_all_out_array_shape

datatype error =
    RuntimeError message
  | TypeError message
  | AttributeError
  | IndexError

text \<open>
  Every call that leaves the module, with its arguments in the order the source passes
  them: the methods of the communicator \<^verbatim>\<open>self._comm\<close>, the group markers of the
  transport, and \<^verbatim>\<open>wait_until\<close> of the store proxy. Pointers, counts and streams are
  naturals, ranks are integers.
\<close>

datatype event =
    Comm_allReduce nat nat nat nccl_dtype nccl_op nat
  | Comm_reduce nat nat nat nccl_dtype nccl_op int nat
  | Comm_broadcast nat nat nat nccl_dtype int nat
  | Comm_reduceScatter nat nat nat nccl_dtype nccl_op nat
  | Comm_allGather nat nat nat nccl_dtype nat
  | Comm_send nat nccl_dtype nat int nat
  | Comm_recv nat nat nccl_dtype int nat
  | NcclGroupStart
  | NcclGroupEnd
  | Proxy_wait_until string nat

text \<open>The calls that reach the device transport: all but those of the store proxy.\<close>

fun is_transport :: "event \<Rightarrow> bool" where
  "is_transport (Proxy_wait_until k g) = False"
| "is_transport e = True"

text \<open>
  A run of a method: how it ends (an exception, or the returned object) and the calls it
  issued up to there, in order.
\<close>

type_synonym 'a run = "(error + 'a) \<times> event list"

definition returns :: "'a \<Rightarrow> 'a run" where
  "returns x = (Inr x, [])"

definition raises :: "error \<Rightarrow> 'a run" where
  "raises e = (Inl e, [])"

definition issue :: "event \<Rightarrow> unit run" where
  "issue ev = (Inr (), [ev])"

definition and_then :: "'a run \<Rightarrow> ('a \<Rightarrow> 'b run) \<Rightarrow> 'b run" where
  "and_then m f =
     (case m of
        (Inl e, t) \<Rightarrow> (Inl e, t)
      | (Inr x, t) \<Rightarrow> (case f x of (r, t') \<Rightarrow> (r, t @ t')))"

text \<open>\<^verbatim>\<open>for i in xs: body(i)\<close>; an exception in the body ends the loop.\<close>

fun for_each :: "'i list \<Rightarrow> ('i \<Rightarrow> unit run) \<Rightarrow> unit run" where
  "for_each [] body = returns ()"
| "for_each (i # rest) body = and_then (body i) (\<lambda>_. for_each rest body)"

text \<open>\<^verbatim>\<open>range(n)\<close> for an integer \<open>n\<close>: empty when \<open>n \<le> 0\<close>.\<close>

definition range_py :: "int \<Rightarrow> nat list" where
  "range_py n = [0 ..< nat n]"

text \<open>\<^verbatim>\<open>a.shape[0]\<close>: the empty tuple of a zero-dimensional array has no item 0.\<close>

definition shape_0 :: "ndarray \<Rightarrow> nat run" where
  "shape_0 a = (case shape a of [] \<Rightarrow> raises IndexError | d # ds \<Rightarrow> returns d)"

text \<open>\<^verbatim>\<open>a[i]\<close> for \<open>i \<ge> 0\<close>: the \<open>i\<close>-th leading slice, \<^verbatim>\<open>IndexError\<close> past the last.\<close>

definition getitem :: "ndarray \<Rightarrow> nat \<Rightarrow> buffer run" where
  "getitem a i = (if i < length (slices a) then returns (slices a ! i) else raises IndexError)"

text \<open>\<^verbatim>\<open>a.data_ptr\<close>.\<close>

definition getattr_data_ptr :: "ndarray \<Rightarrow> nat run" where
  "getattr_data_ptr a = (case data_ptr a of None \<Rightarrow> raises AttributeError | Some p \<Rightarrow> returns p)"

section \<open>The private helpers of the backend\<close>

text \<open>
  \<^verbatim>\<open>if not array.flags.c_contiguous or array.flags.f_contiguous: raise RuntimeError(...)\<close>.
  Python's \<^verbatim>\<open>not\<close> binds tighter than \<^verbatim>\<open>or\<close>.
\<close>

definition check_contiguous :: "ndarray \<Rightarrow> unit run" where
  "check_contiguous array =
     (if (\<not> c_contiguous (flags array)) \<or> f_contiguous (flags array)
      then raises (RuntimeError Not_contiguous)
      else returns ())"

text \<open>
  \<^verbatim>\<open>_get_nccl_dtype_and_count\<close>. It is called on whole arrays and on leading slices, so
  it takes any record that extends \<open>buffer\<close>. \<^verbatim>\<open>dtype in 'FD'\<close> is a substring test
  on a one-character string.
\<close>

definition get_nccl_dtype_and_count :: "'a buffer_scheme \<Rightarrow> (nccl_dtype \<times> nat) run" where
  "get_nccl_dtype_and_count array =
     (let dtype = dtype_char array in
      case nccl_dtypes dtype of
        None \<Rightarrow> raises (TypeError (Unknown_dtype dtype))
      | Some nccl_dtype \<Rightarrow>
          if dtype \<in> set ''FD'' then returns (nccl_dtype, 2 * arr_size array)
          else returns (nccl_dtype, arr_size array))"

text \<open>\<^verbatim>\<open>_get_stream\<close>: a stream is given by its \<^verbatim>\<open>ptr\<close>; \<open>None\<close> is Python's \<^verbatim>\<open>None\<close>.\<close>

definition get_stream :: "NCCLBackend \<Rightarrow> nat option \<Rightarrow> nat run" where
  "get_stream self stream =
     (case stream of None \<Rightarrow> returns (current_stream self) | Some p \<Rightarrow> returns p)"

definition get_op :: "string \<Rightarrow> nccl_op run" where
  "get_op op =
     (case nccl_ops op of
        None \<Rightarrow> raises (RuntimeError (Unknown_op op))
      | Some nccl_op \<Rightarrow> returns nccl_op)"

text \<open>
  \<^verbatim>\<open>_send\<close> and \<^verbatim>\<open>_recv\<close>. The source passes \<^verbatim>\<open>(ptr, dtype, count, peer, stream)\<close> to
  \<^verbatim>\<open>self._comm.send\<close> and \<^verbatim>\<open>(ptr, count, dtype, peer, stream)\<close> to
  \<^verbatim>\<open>self._comm.recv\<close>; the events keep each order as it is written.
\<close>

definition send_priv :: "NCCLBackend \<Rightarrow> 'a buffer_scheme \<Rightarrow> int \<Rightarrow> nccl_dtype \<Rightarrow> nat \<Rightarrow> nat \<Rightarrow> unit run" where
  "send_priv self array peer dtype count stream =
     issue (Comm_send (ptr (data array)) dtype count peer stream)"

definition recv_priv :: "NCCLBackend \<Rightarrow> 'a buffer_scheme \<Rightarrow> int \<Rightarrow> nccl_dtype \<Rightarrow> nat \<Rightarrow> nat \<Rightarrow> unit run" where
  "recv_priv self out_array peer dtype count stream =
     issue (Comm_recv (ptr (data out_array)) count dtype peer stream)"

text \<open>
  The defaults of the optional parameters: an omitted argument is \<open>None\<close> here.
  \<^verbatim>\<open>op='sum'\<close> and \<^verbatim>\<open>root=0\<close>.
\<close>

definition default_op :: "string option \<Rightarrow> string" where
  "default_op op = (case op of None \<Rightarrow> ''sum'' | Some s \<Rightarrow> s)"

definition default_root :: "int option \<Rightarrow> int" where
  "default_root root = (case root of None \<Rightarrow> 0 | Some r \<Rightarrow> r)"

section \<open>The public methods\<close>

text \<open>
  Each method follows its source line by line. The arguments of a call are evaluated
  left to right before the call is made, so \<^verbatim>\<open>out_array.data_ptr\<close> is read (and may
  raise) after everything above it and before the call is issued.
\<close>

definition all_reduce :: "NCCLBackend \<Rightarrow> ndarray \<Rightarrow> ndarray \<Rightarrow> string option \<Rightarrow> nat option \<Rightarrow> unit run" where
  "all_reduce self in_array out_array op stream =
     and_then (check_contiguous in_array) (\<lambda>_.
     and_then (check_contiguous out_array) (\<lambda>_.
     and_then (get_stream self stream) (\<lambda>stream.
     and_then (get_nccl_dtype_and_count in_array) (\<lambda>(dtype, count).
     and_then (get_op (default_op op)) (\<lambda>op.
     and_then (getattr_data_ptr out_array) (\<lambda>out_ptr.
     issue (Comm_allReduce (ptr (data in_array)) out_ptr count dtype op stream)))))))"

definition reduce :: "NCCLBackend \<Rightarrow> ndarray \<Rightarrow> ndarray \<Rightarrow> int option \<Rightarrow> string option \<Rightarrow> nat option \<Rightarrow> unit run" where
  "reduce self in_array out_array root op stream =
     and_then (check_contiguous in_array) (\<lambda>_.
     and_then (if rank self = default_root root then check_contiguous out_array else returns ()) (\<lambda>_.
     and_then (get_stream self stream) (\<lambda>stream.
     and_then (get_nccl_dtype_and_count in_array) (\<lambda>(dtype, count).
     and_then (get_op (default_op op)) (\<lambda>op.
     issue (Comm_reduce (ptr (data in_array)) (ptr (data out_array))
              count dtype op (default_root root) stream))))))"

definition broadcast :: "NCCLBackend \<Rightarrow> ndarray \<Rightarrow> int option \<Rightarrow> nat option \<Rightarrow> unit run" where
  "broadcast self in_array root stream =
     and_then (check_contiguous in_array) (\<lambda>_.
     and_then (get_stream self stream) (\<lambda>stream.
     and_then (get_nccl_dtype_and_count in_array) (\<lambda>(dtype, count).
     issue (Comm_broadcast (ptr (data in_array)) (ptr (data in_array))
              count dtype (default_root root) stream))))"

definition reduce_scatter :: "NCCLBackend \<Rightarrow> ndarray \<Rightarrow> ndarray \<Rightarrow> string option \<Rightarrow> nat option \<Rightarrow> unit run" where
  "reduce_scatter self in_array out_array op stream =
     and_then (check_contiguous in_array) (\<lambda>_.
     and_then (check_contiguous out_array) (\<lambda>_.
     and_then (get_stream self stream) (\<lambda>stream.
     and_then (get_nccl_dtype_and_count in_array) (\<lambda>(dtype, count).
     and_then (get_op (default_op op)) (\<lambda>op.
     and_then (getattr_data_ptr out_array) (\<lambda>out_ptr.
     issue (Comm_reduceScatter (ptr (data in_array)) out_ptr count dtype op stream)))))))"

definition all_gather :: "NCCLBackend \<Rightarrow> ndarray \<Rightarrow> ndarray \<Rightarrow> nat option \<Rightarrow> unit run" where
  "all_gather self in_array out_array stream =
     and_then (check_contiguous in_array) (\<lambda>_.
     and_then (check_contiguous out_array) (\<lambda>_.
     and_then (get_stream self stream) (\<lambda>stream.
     and_then (get_nccl_dtype_and_count in_array) (\<lambda>(dtype, count).
     and_then (getattr_data_ptr out_array) (\<lambda>out_ptr.
     issue (Comm_allGather (ptr (data in_array)) out_ptr count dtype stream))))))"

definition send :: "NCCLBackend \<Rightarrow> ndarray \<Rightarrow> int \<Rightarrow> nat option \<Rightarrow> unit run" where
  "send self array peer stream =
     and_then (check_contiguous array) (\<lambda>_.
     and_then (get_stream self stream) (\<lambda>stream.
     and_then (get_nccl_dtype_and_count array) (\<lambda>(dtype, count).
     send_priv self array peer dtype count stream)))"

definition recv :: "NCCLBackend \<Rightarrow> ndarray \<Rightarrow> int \<Rightarrow> nat option \<Rightarrow> unit run" where
  "recv self out_array peer stream =
     and_then (check_contiguous out_array) (\<lambda>_.
     and_then (get_stream self stream) (\<lambda>stream.
     and_then (get_nccl_dtype_and_count out_array) (\<lambda>(dtype, count).
     recv_priv self out_array peer dtype count stream)))"

definition send_recv :: "NCCLBackend \<Rightarrow> ndarray \<Rightarrow> ndarray \<Rightarrow> int \<Rightarrow> nat option \<Rightarrow> unit run" where
  "send_recv self in_array out_array peer stream =
     and_then (check_contiguous in_array) (\<lambda>_.
     and_then (check_contiguous out_array) (\<lambda>_.
     and_then (get_stream self stream) (\<lambda>stream.
     and_then (get_nccl_dtype_and_count in_array) (\<lambda>(idtype, icount).
     and_then (get_nccl_dtype_and_count out_array) (\<lambda>(odtype, ocount).
     and_then (issue NcclGroupStart) (\<lambda>_.
     and_then (send_priv self in_array peer idtype icount stream) (\<lambda>_.
     and_then (recv_priv self out_array peer odtype ocount stream) (\<lambda>_.
     issue NcclGroupEnd))))))))"

definition scatter :: "NCCLBackend \<Rightarrow> ndarray \<Rightarrow> ndarray \<Rightarrow> int option \<Rightarrow> nat option \<Rightarrow> unit run" where
  "scatter self in_array out_array root stream =
     and_then (shape_0 in_array) (\<lambda>d.
     and_then (if int d \<noteq> n_devices self
               then raises (RuntimeError Scatter_in_array_shape) else returns ()) (\<lambda>_.
     and_then (check_contiguous in_array) (\<lambda>_.
     and_then (check_contiguous out_array) (\<lambda>_.
     and_then (get_stream self stream) (\<lambda>stream.
     and_then (issue NcclGroupStart) (\<lambda>_.
     and_then (if default_root root = rank self
               then for_each (range_py (n_devices self)) (\<lambda>i.
                      and_then (getitem in_array i) (\<lambda>array.
                      and_then (get_nccl_dtype_and_count out_array) (\<lambda>(idtype, icount).
                      send_priv self array (int i) idtype icount stream)))
               else returns ()) (\<lambda>_.
     and_then (get_nccl_dtype_and_count out_array) (\<lambda>(dtype, count).
     and_then (recv_priv self out_array (default_root root) dtype count stream) (\<lambda>_.
     issue NcclGroupEnd)))))))))"

definition gather :: "NCCLBackend \<Rightarrow> ndarray \<Rightarrow> ndarray \<Rightarrow> int option \<Rightarrow> nat option \<Rightarrow> unit run" where
  "gather self in_array out_array root stream =
     and_then (shape_0 out_array) (\<lambda>d.
     and_then (if int d \<noteq> n_devices self
               then raises (RuntimeError Gather_out_array_shape) else returns ()) (\<lambda>_.
     and_then (check_contiguous in_array) (\<lambda>_.
     and_then (check_contiguous out_array) (\<lambda>_.
     and_then (get_stream self stream) (\<lambda>stream.
     and_then (issue NcclGroupStart) (\<lambda>_.
     and_then (if default_root root = rank self
               then for_each (range_py (n_devices self)) (\<lambda>i.
                      and_then (getitem out_array i) (\<lambda>array.
                      and_then (get_nccl_dtype_and_count out_array) (\<lambda>(odtype, ocount).
                      recv_priv self array (int i) odtype ocount stream)))
               else returns ()) (\<lambda>_.
     and_then (get_nccl_dtype_and_count in_array) (\<lambda>(dtype, count).
     and_then (send_priv self in_array (default_root root) dtype count stream) (\<lambda>_.
     issue NcclGroupEnd)))))))))"

text \<open>
  \<^verbatim>\<open>all_to_all\<close>: both shape tests of the source read \<^verbatim>\<open>out_array.shape[0]\<close>; the first
  one raises the message that names \<^verbatim>\<open>in_array\<close>.
\<close>

definition all_to_all :: "NCCLBackend \<Rightarrow> ndarray \<Rightarrow> ndarray \<Rightarrow> nat option \<Rightarrow> unit run" where
  "all_to_all self in_array out_array stream =
     and_then (shape_0 out_array) (\<lambda>d.
     and_then (if int d \<noteq> n_devices self
               then raises (RuntimeError All_to_all_in_array_shape) else returns ()) (\<lambda>_.
     and_then (shape_0 out_array) (\<lambda>d.
     and_then (if int d \<noteq> n_devices self
               then raises (RuntimeError All_to_all_out_array_shape) else returns ()) (\<lambda>_.
     and_then (check_contiguous in_array) (\<lambda>_.
     and_then (check_contiguous out_array) (\<lambda>_.
     and_then (get_stream self stream) (\<lambda>stream.
     and_then (getitem in_array 0) (\<lambda>in0.
     and_then (get_nccl_dtype_and_count in0) (\<lambda>(idtype, icount).
     and_then (getitem out_array 0) (\<lambda>out0.
     and_then (get_nccl_dtype_and_count out0) (\<lambda>(odtype, ocount).
     and_then (issue NcclGroupStart) (\<lambda>_.
     and_then (for_each (range_py (n_devices self)) (\<lambda>i.
                 and_then (getitem in_array i) (\<lambda>in_i.
                 and_then (send_priv self in_i (int i) idtype icount stream) (\<lambda>_.
                 and_then (getitem out_array i) (\<lambda>out_i.
                 recv_priv self out_i (int i) odtype ocount stream))))) (\<lambda>_.
     issue NcclGroupEnd)))))))))))))"

text \<open>
  \<^verbatim>\<open>cpu_barrier\<close> and \<^verbatim>\<open>cpu_broadcast\<close>: both bodies are the one call
  \<^verbatim>\<open>self._store_proxy.wait_until('barrier', 0)\<close>, and both return \<^verbatim>\<open>None\<close>.
\<close>

definition cpu_barrier :: "NCCLBackend \<Rightarrow> unit run" where
  "cpu_barrier self = issue (Proxy_wait_until ''barrier'' 0)"

definition cpu_broadcast :: "NCCLBackend \<Rightarrow> 'v \<Rightarrow> int option \<Rightarrow> unit run" where
  "cpu_broadcast self v root = issue (Proxy_wait_until ''barrier'' 0)"

section \<open>Concrete processes and arrays\<close>

text \<open>Two processes of a group of two; the current stream of each has \<^verbatim>\<open>ptr\<close> 7.\<close>

definition proc0 :: NCCLBackend where
  "proc0 = \<lparr>n_devices = 2, rank = 0, current_stream = 7\<rparr>"

definition proc1 :: NCCLBackend where
  "proc1 = \<lparr>n_devices = 2, rank = 1, current_stream = 7\<rparr>"

text \<open>
  Arrays of the array library (so without \<^verbatim>\<open>data_ptr\<close>) of 4-byte elements of type
  \<open>c\<close>, allocated at address \<open>p\<close>:
  \<^item> \<open>vector4 c p\<close>: one dimension, 4 elements; such an array is contiguous in both
    orders at once;
  \<^item> \<open>matrix_c r c p\<close>: \<open>r\<close> rows of 2 elements in C order (\<open>r \<ge> 2\<close>), contiguous in C
    order only;
  \<^item> \<open>matrix_f c p\<close>: 2 by 2 in Fortran order, contiguous in Fortran order only;
  \<^item> \<open>strided c p\<close>: 2 by 2, every second column of a 2 by 4 matrix, contiguous in
    neither order;
  \<^item> \<open>cube_c c p\<close>: 2 by 2 by 2 in C order.
\<close>

definition scalar_at :: "char \<Rightarrow> nat \<Rightarrow> buffer" where
  "scalar_at c p = \<lparr>dtype_char = c, arr_size = 1, data = \<lparr>ptr = p\<rparr>\<rparr>"

definition row2_at :: "char \<Rightarrow> nat \<Rightarrow> buffer" where
  "row2_at c p = \<lparr>dtype_char = c, arr_size = 2, data = \<lparr>ptr = p\<rparr>\<rparr>"

definition vector4 :: "char \<Rightarrow> nat \<Rightarrow> ndarray" where
  "vector4 c p =
     \<lparr>dtype_char = c, arr_size = 4, data = \<lparr>ptr = p\<rparr>,
      flags = \<lparr>c_contiguous = True, f_contiguous = True\<rparr>,
      shape = [4],
      slices = [scalar_at c p, scalar_at c (p + 4), scalar_at c (p + 8), scalar_at c (p + 12)],
      data_ptr = None\<rparr>"

definition matrix_c :: "nat \<Rightarrow> char \<Rightarrow> nat \<Rightarrow> ndarray" where
  "matrix_c r c p =
     \<lparr>dtype_char = c, arr_size = r * 2, data = \<lparr>ptr = p\<rparr>,
      flags = \<lparr>c_contiguous = True, f_contiguous = False\<rparr>,
      shape = [r, 2],
      slices = map (\<lambda>i. row2_at c (p + 8 * i)) [0 ..< r],
      data_ptr = None\<rparr>"

definition matrix_f :: "char \<Rightarrow> nat \<Rightarrow> ndarray" where
  "matrix_f c p =
     \<lparr>dtype_char = c, arr_size = 4, data = \<lparr>ptr = p\<rparr>,
      flags = \<lparr>c_contiguous = False, f_contiguous = True\<rparr>,
      shape = [2, 2],
      slices = [row2_at c p, row2_at c (p + 4)],
      data_ptr = None\<rparr>"

definition strided :: "char \<Rightarrow> nat \<Rightarrow> ndarray" where
  "strided c p =
     \<lparr>dtype_char = c, arr_size = 4, data = \<lparr>ptr = p\<rparr>,
      flags = \<lparr>c_contiguous = False, f_contiguous = False\<rparr>,
      shape = [2, 2],
      slices = [row2_at c p, row2_at c (p + 16)],
      data_ptr = None\<rparr>"

definition cube_c :: "char \<Rightarrow> nat \<Rightarrow> ndarray" where
  "cube_c c p =
     \<lparr>dtype_char = c, arr_size = 8, data = \<lparr>ptr = p\<rparr>,
      flags = \<lparr>c_contiguous = True, f_contiguous = False\<rparr>,
      shape = [2, 2, 2],
      slices = [\<lparr>dtype_char = c, arr_size = 4, data = \<lparr>ptr = p\<rparr>\<rparr>,
                \<lparr>dtype_char = c, arr_size = 4, data = \<lparr>ptr = p + 16\<rparr>\<rparr>],
      data_ptr = None\<rparr>"

section \<open>All public data-moving calls at once\<close>

text \<open>
  A call of one of the eleven data-moving methods with its arguments, and what the
  method does on it. \<open>buffer_args\<close> lists the arrays a call is given.
  \<open>checked_args\<close> lists those that the method passes to \<^verbatim>\<open>_check_contiguous\<close>:
  \<^verbatim>\<open>reduce\<close> checks \<^verbatim>\<open>out_array\<close> under \<^verbatim>\<open>if self.rank == root\<close> only.
\<close>

datatype call =
    All_reduce ndarray ndarray "string option" "nat option"
  | Reduce ndarray ndarray "int option" "string option" "nat option"
  | Broadcast ndarray "int option" "nat option"
  | Reduce_scatter ndarray ndarray "string option" "nat option"
  | All_gather ndarray ndarray "nat option"
  | Send ndarray int "nat option"
  | Recv ndarray int "nat option"
  | Send_recv ndarray ndarray int "nat option"
  | Scatter ndarray ndarray "int option" "nat option"
  | Gather ndarray ndarray "int option" "nat option"
  | All_to_all ndarray ndarray "nat option"

fun perform :: "NCCLBackend \<Rightarrow> call \<Rightarrow> unit run" where
  "perform self (All_reduce i out op s) = all_reduce self i out op s"
| "perform self (Reduce i out root op s) = reduce self i out root op s"
| "perform self (Broadcast i root s) = broadcast self i root s"
| "perform self (Reduce_scatter i out op s) = reduce_scatter self i out op s"
| "perform self (All_gather i out s) = all_gather self i out s"
| "perform self (Send a peer s) = send self a peer s"
| "perform self (Recv a peer s) = recv self a peer s"
| "perform self (Send_recv i out peer s) = send_recv self i out peer s"
| "perform self (Scatter i out root s) = scatter self i out root s"
| "perform self (Gather i out root s) = gather self i out root s"
| "perform self (All_to_all i out s) = all_to_all self i out s"

fun buffer_args :: "call \<Rightarrow> ndarray list" where
  "buffer_args (All_reduce i out op s) = [i, out]"
| "buffer_args (Reduce i out root op s) = [i, out]"
| "buffer_args (Broadcast i root s) = [i]"
| "buffer_args (Reduce_scatter i out op s) = [i, out]"
| "buffer_args (All_gather i out s) = [i, out]"
| "buffer_args (Send a peer s) = [a]"
| "buffer_args (Recv a peer s) = [a]"
| "buffer_args (Send_recv i out peer s) = [i, out]"
| "buffer_args (Scatter i out root s) = [i, out]"
| "buffer_args (Gather i out root s) = [i, out]"
| "buffer_args (All_to_all i out s) = [i, out]"

fun checked_args :: "NCCLBackend \<Rightarrow> call \<Rightarrow> ndarray list" where
  "checked_args self (Reduce i out root op s) =
     (if rank self = default_root root then [i, out] else [i])"
| "checked_args self c = buffer_args c"

section \<open>Construction of the backend in a group of processes\<close>

text \<open>
  \<^verbatim>\<open>NCCLBackend.__init__(self, n_devices, rank)\<close> runs once in each process of the
  group. What it does outside the process, in the order of the source:
  \<^item> rank 0: \<^verbatim>\<open>TCPStore(n_devices)\<close> and its \<^verbatim>\<open>run(host, port)\<close>,
    \<^verbatim>\<open>nccl_id = nccl.get_unique_id()\<close>, \<^verbatim>\<open>self._store_proxy['nccl_id'] = nccl_id\<close>,
    \<^verbatim>\<open>self._store_proxy.barrier()\<close>;
  \<^item> every other rank: \<^verbatim>\<open>self._store_proxy.barrier()\<close>,
    \<^verbatim>\<open>nccl_id = self._store_proxy['nccl_id']\<close>;
  \<^item> every rank, last: \<^verbatim>\<open>self._comm = nccl.NcclCommunicator(n_devices, nccl_id, rank)\<close>.
  The call \<^verbatim>\<open>barrier()\<close> blocks; in the interleaving of the processes it is two
  steps, the check-in with the store and the wait for the other participants.
\<close>

datatype action =
    Store_run
  | Get_unique_id
  | Proxy_setitem string
  | Proxy_getitem string
  | Barrier_check_in
  | Barrier_wait
  | Make_communicator

definition init_program :: "int \<Rightarrow> action list" where
  "init_program rk =
     (if rk = 0
      then [Store_run, Get_unique_id, Proxy_setitem ''nccl_id'', Barrier_check_in, Barrier_wait]
      else [Barrier_check_in, Barrier_wait, Proxy_getitem ''nccl_id''])
     @ [Make_communicator]"

text \<open>
  A process inside its constructor: the arguments \<^verbatim>\<open>n_devices\<close> and \<^verbatim>\<open>rank\<close>, how many
  steps of \<open>init_program\<close> it has taken, its local variable \<^verbatim>\<open>nccl_id\<close> (\<open>None\<close> while
  unbound) and \<^verbatim>\<open>self._comm\<close> (\<open>None\<close> until constructed), a communicator being the
  triple it was constructed from.
\<close>

record 'id process =
  self_n_devices :: int
  self_rank :: int
  pc :: nat
  nccl_id :: "'id option"
  self_comm :: "(int \<times> 'id \<times> int) option"

text \<open>
  The group: the store of rank 0 and the processes, the process of rank \<open>r\<close> at index
  \<open>r\<close>. Of the store: \<open>serving\<close> is \<open>None\<close> until it listens, then the number of
  participants it was created for; \<open>kv\<close> are its keys; \<open>check_ins\<close> counts the
  participants that have entered the barrier.
\<close>

record 'id world =
  serving :: "nat option"
  kv :: "string \<rightharpoonup> 'id"
  check_ins :: nat
  procs :: "'id process list"

definition init_world :: "nat \<Rightarrow> 'id world" where
  "init_world N =
     \<lparr>serving = None, kv = Map.empty, check_ins = 0,
      procs = map (\<lambda>r. \<lparr>self_n_devices = int N, self_rank = int r, pc = 0,
                         nccl_id = None, self_comm = None\<rparr>) [0 ..< N]\<rparr>"

text \<open>
  Modelled from the spec: the rendezvous store and its proxy
  (\<^verbatim>\<open>cupyx/distributed/_store.py\<close>, classes \<^verbatim>\<open>TCPStore\<close> and \<^verbatim>\<open>TCPStoreProxy\<close>) are not
  among the sources. The spec: \<^emph>\<open>set(key, value) stores value under key\<close>;
  \<^emph>\<open>get(key) blocks until key has been set, then returns its value\<close>; in a barrier every
  participant checks in and blocks until all participants have checked in; rank 0 hosts
  the store and every process reaches it through a proxy over the network. A result
  \<open>None\<close> says that the caller is blocked: the store is not listening yet, the key is
  not set, or not all participants have checked in.
\<close>

definition store_set :: "string \<Rightarrow> 'id \<Rightarrow> 'id world \<Rightarrow> 'id world option" where
  "store_set k v w =
     (case serving w of None \<Rightarrow> None | Some n \<Rightarrow> Some (w\<lparr>kv := (kv w)(k \<mapsto> v)\<rparr>))"

text \<open>Modelled from the spec: \<^emph>\<open>get(key)\<close> of the store, \<open>None\<close> while it blocks.\<close>

definition store_get :: "string \<Rightarrow> 'id world \<Rightarrow> 'id option" where
  "store_get k w = (case serving w of None \<Rightarrow> None | Some n \<Rightarrow> kv w k)"

text \<open>
  Modelled from the spec: the two halves of the barrier, the check-in of a participant and
  the test that all participants have checked in.
\<close>

definition barrier_check_in :: "'id world \<Rightarrow> 'id world option" where
  "barrier_check_in w =
     (case serving w of None \<Rightarrow> None | Some n \<Rightarrow> Some (w\<lparr>check_ins := check_ins w + 1\<rparr>))"

definition barrier_open :: "'id world \<Rightarrow> bool" where
  "barrier_open w = (case serving w of None \<Rightarrow> False | Some n \<Rightarrow> n \<le> check_ins w)"

text \<open>The next action of a process; \<open>None\<close> when the constructor has returned.\<close>

definition next_action :: "'id process \<Rightarrow> action option" where
  "next_action p =
     (if pc p < length (init_program (self_rank p))
      then Some (init_program (self_rank p) ! pc p) else None)"

definition finished :: "'id process \<Rightarrow> bool" where
  "finished p = (next_action p = None)"

text \<open>
  One step of the process of rank \<open>r\<close>; \<open>None\<close> when it has finished or is blocked.
  \<open>uid\<close> is the identifier that \<^verbatim>\<open>nccl.get_unique_id()\<close> generates. A step that reads
  the unbound local \<^verbatim>\<open>nccl_id\<close> does not happen.
\<close>

definition put_proc :: "nat \<Rightarrow> 'id process \<Rightarrow> 'id world \<Rightarrow> 'id world" where
  "put_proc r p w = w\<lparr>procs := (procs w)[r := p\<lparr>pc := pc p + 1\<rparr>]\<rparr>"

definition step :: "'id \<Rightarrow> 'id world \<Rightarrow> nat \<Rightarrow> 'id world option" where
  "step uid w r =
     (if r < length (procs w) then
        let p = procs w ! r in
        case next_action p of
          None \<Rightarrow> None
        | Some Store_run \<Rightarrow>
            Some (put_proc r p (w\<lparr>serving := Some (nat (self_n_devices p))\<rparr>))
        | Some Get_unique_id \<Rightarrow>
            Some (put_proc r (p\<lparr>nccl_id := Some uid\<rparr>) w)
        | Some (Proxy_setitem k) \<Rightarrow>
            (case nccl_id p of
               None \<Rightarrow> None
             | Some v \<Rightarrow> map_option (put_proc r p) (store_set k v w))
        | Some (Proxy_getitem k) \<Rightarrow>
            (case store_get k w of
               None \<Rightarrow> None
             | Some v \<Rightarrow> Some (put_proc r (p\<lparr>nccl_id := Some v\<rparr>) w))
        | Some Barrier_check_in \<Rightarrow> map_option (put_proc r p) (barrier_check_in w)
        | Some Barrier_wait \<Rightarrow> (if barrier_open w then Some (put_proc r p w) else None)
        | Some Make_communicator \<Rightarrow>
            (case nccl_id p of
               None \<Rightarrow> None
             | Some v \<Rightarrow>
                 Some (put_proc r (p\<lparr>self_comm := Some (self_n_devices p, v, self_rank p)\<rparr>) w))
      else None)"

text \<open>
  A schedule names the process that is given the next turn, over and over; a process
  that is blocked or has finished when its turn comes leaves the group as it is.
\<close>

fun exec :: "'id \<Rightarrow> 'id world \<Rightarrow> nat list \<Rightarrow> 'id world" where
  "exec uid w [] = w"
| "exec uid w (r # rs) = exec uid (case step uid w r of None \<Rightarrow> w | Some w' \<Rightarrow> w') rs"

text \<open>The communicators of the group, by rank.\<close>

definition comms :: "'id world \<Rightarrow> (int \<times> 'id \<times> int) option list" where
  "comms w = map self_comm (procs w)"

text \<open>
  The history of a run: who took which action, in the order of the turns that led to a
  step. \<open>actions_of r h\<close> are the actions of the process of rank \<open>r\<close> in it.
\<close>

fun history :: "'id \<Rightarrow> 'id world \<Rightarrow> nat list \<Rightarrow> (nat \<times> action) list" where
  "history uid w [] = []"
| "history uid w (r # rs) =
     (case step uid w r of
        None \<Rightarrow> history uid w rs
      | Some w' \<Rightarrow>
          (case next_action (procs w ! r) of None \<Rightarrow> [] | Some a \<Rightarrow> [(r, a)])
          @ history uid w' rs)"

definition actions_of :: "nat \<Rightarrow> (nat \<times> action) list \<Rightarrow> action list" where
  "actions_of r h = map snd (filter (\<lambda>x. fst x = r) h)"

text \<open>
  The invariant of the construction. \<open>checked_in\<close>, \<open>past_barrier\<close> and \<open>has_id\<close>
  read off the step count where a process stands in \<open>init_program\<close>.
\<close>

definition checked_in :: "'id process \<Rightarrow> bool" where
  "checked_in p = ((if self_rank p = 0 then 3 else 0) < pc p)"

definition past_barrier :: "'id process \<Rightarrow> bool" where
  "past_barrier p = ((if self_rank p = 0 then 4 else 1) < pc p)"

definition has_id :: "'id process \<Rightarrow> bool" where
  "has_id p = ((if self_rank p = 0 then 2 else 3) \<le> pc p)"

definition proc_inv :: "nat \<Rightarrow> 'id \<Rightarrow> 'id process \<Rightarrow> bool" where
  "proc_inv N uid p =
     (self_n_devices p = int N \<and>
      pc p \<le> length (init_program (self_rank p)) \<and>
      nccl_id p = (if has_id p then Some uid else None) \<and>
      self_comm p = (if finished p then Some (int N, uid, self_rank p) else None))"

definition world_inv :: "nat \<Rightarrow> 'id \<Rightarrow> 'id world \<Rightarrow> bool" where
  "world_inv N uid w =
     (0 < N \<and> length (procs w) = N \<and>
      (\<forall>r < N. self_rank (procs w ! r) = int r \<and> proc_inv N uid (procs w ! r) \<and>
                (past_barrier (procs w ! r) \<longrightarrow> N \<le> check_ins w)) \<and>
      serving w = (if 1 \<le> pc (procs w ! 0) then Some N else None) \<and>
      kv w ''nccl_id'' = (if 3 \<le> pc (procs w ! 0) then Some uid else None) \<and>
      check_ins w = length (filter checked_in (procs w)))"

text \<open>The actions that the group has still to take.\<close>

definition remaining :: "'id world \<Rightarrow> nat" where
  "remaining w = sum_list (map (\<lambda>p. length (init_program (self_rank p)) - pc p) (procs w))"

section \<open>Basic facts about runs\<close>

lemma and_then_returns: "and_then (returns x) f = f x"
  by (simp add: and_then_def returns_def split: prod.splits)

lemma and_then_raises: "and_then (raises e) f = raises e"
  by (simp add: and_then_def raises_def)

lemma and_then_issue: "and_then (issue ev) f = (fst (f ()), ev # snd (f ()))"
  by (simp add: and_then_def issue_def split: prod.splits)

lemma check_contiguous_cases:
  "check_contiguous a = returns () \<or> check_contiguous a = raises (RuntimeError Not_contiguous)"
  by (simp add: check_contiguous_def)

lemma get_stream_returns: "get_stream self s = returns (case s of None \<Rightarrow> current_stream self | Some p \<Rightarrow> p)"
  by (simp add: get_stream_def split: option.splits)

lemmas run_defs =
  and_then_def returns_def raises_def issue_def check_contiguous_def
  get_nccl_dtype_and_count_def get_stream_def get_op_def getattr_data_ptr_def
  shape_0_def getitem_def send_priv_def recv_priv_def default_op_def default_root_def
  range_py_def nccl_dtypes_def nccl_ops_def

lemmas input_defs =
  proc0_def proc1_def vector4_def matrix_c_def matrix_f_def strided_def cube_c_def
  scalar_at_def row2_at_def

section \<open>Layout validation\<close>

text \<open>
  Claim C2: for every buffer argument of every operation, layout validation succeeds if
  and only if the buffer is contiguous in C order or in Fortran order.

  The source tests \<^verbatim>\<open>not c_contiguous or f_contiguous\<close>, which Python reads as
  \<^verbatim>\<open>(not c_contiguous) or f_contiguous\<close>: validation succeeds exactly for the arrays
  that are C-contiguous and not Fortran-contiguous. A one-dimensional contiguous array
  (contiguous in both orders) and a matrix in Fortran order are contiguous in a canonical
  order, and both are rejected.
\<close>

theorem check_contiguous_accepts_iff:
  "check_contiguous a = returns () \<longleftrightarrow> c_contiguous (flags a) \<and> \<not> f_contiguous (flags a)"
  by (simp add: check_contiguous_def returns_def raises_def)

theorem check_contiguous_rejects_contiguous:
  "c_contiguous (flags (vector4 CHR ''f'' 4096)) \<and>
   check_contiguous (vector4 CHR ''f'' 4096) \<noteq> returns () \<and>
   check_contiguous (vector4 CHR ''f'' 4096) = (Inl (RuntimeError Not_contiguous), []) \<and>
   f_contiguous (flags (matrix_f CHR ''f'' 4096)) \<and>
   check_contiguous (matrix_f CHR ''f'' 4096) \<noteq> returns () \<and>
   check_contiguous (matrix_f CHR ''f'' 4096) = (Inl (RuntimeError Not_contiguous), [])"
  using check_contiguous_accepts_iff [of "vector4 CHR ''f'' 4096"]
    check_contiguous_accepts_iff [of "matrix_f CHR ''f'' 4096"]
    check_contiguous_cases [of "vector4 CHR ''f'' 4096"]
    check_contiguous_cases [of "matrix_f CHR ''f'' 4096"]
  by (simp add: vector4_def matrix_f_def raises_def)

section \<open>Type and count translation\<close>

text \<open>
  Claim C3: a buffer of a complex element type (\<^verbatim>\<open>'F'\<close> single precision, \<^verbatim>\<open>'D'\<close>
  double precision) holding \<open>k\<close> elements is translated to the real wire type of the
  same precision with count \<open>2 * k\<close>; for every other supported element type the count
  is the buffer's element count.
\<close>

theorem get_nccl_dtype_and_count_complex_doubled:
  "(dtype_char a = CHR ''F'' \<longrightarrow>
      get_nccl_dtype_and_count a = returns (NCCL_FLOAT32, 2 * arr_size a)) \<and>
   (dtype_char a = CHR ''D'' \<longrightarrow>
      get_nccl_dtype_and_count a = returns (NCCL_FLOAT64, 2 * arr_size a)) \<and>
   (dtype_char a \<noteq> CHR ''F'' \<and> dtype_char a \<noteq> CHR ''D'' \<and> nccl_dtypes (dtype_char a) = Some t \<longrightarrow>
      get_nccl_dtype_and_count a = returns (t, arr_size a))"
  by (simp add: get_nccl_dtype_and_count_def nccl_dtypes_def)

theorem get_nccl_dtype_and_count_complex_doubled_witness:
  "get_nccl_dtype_and_count \<lparr>dtype_char = CHR ''F'', arr_size = 5, data = \<lparr>ptr = 4096\<rparr>\<rparr>
     = returns (NCCL_FLOAT32, 10) \<and>
   get_nccl_dtype_and_count \<lparr>dtype_char = CHR ''D'', arr_size = 5, data = \<lparr>ptr = 4096\<rparr>\<rparr>
     = returns (NCCL_FLOAT64, 10) \<and>
   get_nccl_dtype_and_count \<lparr>dtype_char = CHR ''i'', arr_size = 5, data = \<lparr>ptr = 4096\<rparr>\<rparr>
     = returns (NCCL_INT32, 5)"
  using
    get_nccl_dtype_and_count_complex_doubled
      [of "\<lparr>dtype_char = CHR ''F'', arr_size = 5, data = \<lparr>ptr = 4096\<rparr>\<rparr>" NCCL_FLOAT32]
    get_nccl_dtype_and_count_complex_doubled
      [of "\<lparr>dtype_char = CHR ''D'', arr_size = 5, data = \<lparr>ptr = 4096\<rparr>\<rparr>" NCCL_FLOAT64]
    get_nccl_dtype_and_count_complex_doubled
      [of "\<lparr>dtype_char = CHR ''i'', arr_size = 5, data = \<lparr>ptr = 4096\<rparr>\<rparr>" NCCL_INT32]
  by (simp add: nccl_dtypes_def)

section \<open>Single-call collectives\<close>

text \<open>
  What \<^verbatim>\<open>all_reduce\<close> does once both arrays have passed the layout check and the element
  type and the operator are supported: it reads \<^verbatim>\<open>out_array.data_ptr\<close>. An array without
  that attribute ends the call with \<^verbatim>\<open>AttributeError\<close> and nothing issued; an object
  that has it gets one \<^verbatim>\<open>allReduce\<close> with the attribute's value as output pointer.
\<close>

lemma all_reduce_after_validation:
  assumes "check_contiguous in_array = returns ()"
    and "check_contiguous out_array = returns ()"
    and "nccl_dtypes (dtype_char in_array) = Some t"
    and "nccl_ops (default_op op) = Some r"
  shows "all_reduce self in_array out_array op stream =
     (case data_ptr out_array of
        None \<Rightarrow> (Inl AttributeError, [])
      | Some p \<Rightarrow>
          (Inr (), [Comm_allReduce (ptr (data in_array)) p
                      (if dtype_char in_array \<in> set ''FD'' then 2 * arr_size in_array
                       else arr_size in_array)
                      t r (case stream of None \<Rightarrow> current_stream self | Some s \<Rightarrow> s)]))"
  using assms
  by (simp add: all_reduce_def and_then_def returns_def raises_def issue_def get_stream_def
      get_nccl_dtype_and_count_def get_op_def getattr_data_ptr_def split: option.splits)

text \<open>The sibling \<^verbatim>\<open>reduce\<close> reads \<^verbatim>\<open>out_array.data.ptr\<close> and issues its call.\<close>

lemma reduce_after_validation:
  assumes "check_contiguous in_array = returns ()"
    and "check_contiguous out_array = returns ()"
    and "nccl_dtypes (dtype_char in_array) = Some t"
    and "nccl_ops (default_op op) = Some r"
  shows "reduce self in_array out_array root op stream =
     (Inr (), [Comm_reduce (ptr (data in_array)) (ptr (data out_array))
                 (if dtype_char in_array \<in> set ''FD'' then 2 * arr_size in_array
                  else arr_size in_array)
                 t r (default_root root)
                 (case stream of None \<Rightarrow> current_stream self | Some s \<Rightarrow> s)])"
  using assms
  by (simp add: reduce_def and_then_def returns_def raises_def issue_def get_stream_def
      get_nccl_dtype_and_count_def get_op_def split: option.splits)

text \<open>
  Claim C1: for every pair of buffers that pass layout validation and every supported
  element type and reduction op, \<^verbatim>\<open>all_reduce\<close> issues exactly one \<^verbatim>\<open>allReduce\<close> call
  with the input pointer, the output pointer, the translated count and wire type, the
  translated op and the resolved stream.

  The source passes \<^verbatim>\<open>out_array.data_ptr\<close> where \<^verbatim>\<open>reduce\<close> passes
  \<^verbatim>\<open>out_array.data.ptr\<close>. For every output array of the array library (no attribute
  \<^verbatim>\<open>data_ptr\<close>), whenever both arrays pass the layout check and the element type and the
  op are supported, the call raises \<^verbatim>\<open>AttributeError\<close> and issues nothing. The instance:
  two 2 by 2 float32 matrices in C order with op \<^verbatim>\<open>'sum'\<close>, on which \<^verbatim>\<open>reduce\<close> issues
  its one call.
\<close>

theorem all_reduce_raises_attribute_error:
  assumes "check_contiguous in_array = returns ()"
    and "check_contiguous out_array = returns ()"
    and "nccl_dtypes (dtype_char in_array) = Some t"
    and "nccl_ops (default_op op) = Some r"
    and "data_ptr out_array = None"
  shows "all_reduce self in_array out_array op stream = (Inl AttributeError, [])"
  using assms
  by (simp add: all_reduce_def and_then_def returns_def raises_def issue_def get_stream_def
      get_nccl_dtype_and_count_def get_op_def getattr_data_ptr_def Let_def
      split: option.splits)

theorem all_reduce_raises_attribute_error_instance:
  "check_contiguous (matrix_c 2 CHR ''f'' 4096) = returns () \<and>
   check_contiguous (matrix_c 2 CHR ''f'' 8192) = returns () \<and>
   nccl_dtypes (dtype_char (matrix_c 2 CHR ''f'' 4096)) = Some NCCL_FLOAT32 \<and>
   nccl_ops (default_op (Some ''sum'')) = Some NCCL_SUM \<and>
   data_ptr (matrix_c 2 CHR ''f'' 8192) = None \<and>
   all_reduce proc0 (matrix_c 2 CHR ''f'' 4096) (matrix_c 2 CHR ''f'' 8192) (Some ''sum'') None
     = (Inl AttributeError, []) \<and>
   reduce proc0 (matrix_c 2 CHR ''f'' 4096) (matrix_c 2 CHR ''f'' 8192) (Some 0) (Some ''sum'') None
     = (Inr (), [Comm_reduce 4096 8192 4 NCCL_FLOAT32 NCCL_SUM 0 7])"
proof -
  have a: "check_contiguous (matrix_c 2 CHR ''f'' 4096) = returns ()"
    and b: "check_contiguous (matrix_c 2 CHR ''f'' 8192) = returns ()"
    by (simp_all add: check_contiguous_def matrix_c_def)
  have c: "nccl_dtypes (dtype_char (matrix_c 2 CHR ''f'' 4096)) = Some NCCL_FLOAT32"
    by (simp add: matrix_c_def nccl_dtypes_def)
  have d: "nccl_ops (default_op (Some ''sum'')) = Some NCCL_SUM"
    by (simp add: default_op_def nccl_ops_def)
  have e: "data_ptr (matrix_c 2 CHR ''f'' 8192) = None"
    by (simp add: matrix_c_def)
  have f: "reduce proc0 (matrix_c 2 CHR ''f'' 4096) (matrix_c 2 CHR ''f'' 8192) (Some 0) (Some ''sum'') None
     = (Inr (), [Comm_reduce 4096 8192 4 NCCL_FLOAT32 NCCL_SUM 0 7])"
    by (simp add: reduce_def run_defs input_defs)
  from a b c d e f all_reduce_raises_attribute_error [OF a b c d e, of proc0 None]
  show ?thesis by simp
qed

section \<open>Point-to-point exchange\<close>

text \<open>
  What \<^verbatim>\<open>send_recv\<close> issues for arrays that pass the layout check as the source
  performs it: one send and one receive between the two group markers.
\<close>

lemma send_recv_after_validation:
  assumes "check_contiguous in_array = returns ()"
    and "check_contiguous out_array = returns ()"
    and "get_nccl_dtype_and_count in_array = returns (it, ic)"
    and "get_nccl_dtype_and_count out_array = returns (ot, oc)"
  shows "send_recv self in_array out_array peer stream =
     (Inr (), [NcclGroupStart,
               Comm_send (ptr (data in_array)) it ic peer
                 (case stream of None \<Rightarrow> current_stream self | Some s \<Rightarrow> s),
               Comm_recv (ptr (data out_array)) oc ot peer
                 (case stream of None \<Rightarrow> current_stream self | Some s \<Rightarrow> s),
               NcclGroupEnd])"
  using assms
  by (simp add: send_recv_def and_then_def returns_def issue_def get_stream_def
      send_priv_def recv_priv_def split: option.splits)

text \<open>
  Claim C5: for every pair of contiguous buffers with supported element types and every
  peer rank, \<^verbatim>\<open>send_recv\<close> issues exactly one send of the input to the peer and one
  receive into the output from the peer, between one group-start and one group-end marker,
  and no other transport call.

  For arrays that pass the layout check the source does so
  (\<open>send_recv_after_validation\<close>). The layout check rejects arrays that are contiguous
  in both orders, so on two one-dimensional contiguous float32 arrays the call raises
  and issues nothing.
\<close>

theorem send_recv_rejects_contiguous_vectors:
  "c_contiguous (flags (vector4 CHR ''f'' 4096)) \<and>
   c_contiguous (flags (vector4 CHR ''f'' 8192)) \<and>
   send_recv proc0 (vector4 CHR ''f'' 4096) (vector4 CHR ''f'' 8192) 1 None
     = (Inl (RuntimeError Not_contiguous), [])"
  by (simp add: send_recv_def run_defs input_defs)

section \<open>Composed collectives\<close>

lemma for_each_issues:
  assumes "\<And>i. i \<in> set xs \<Longrightarrow> body i = (Inr (), [f i])"
  shows "for_each xs body = (Inr (), map f xs)"
  using assms
  by (induction xs) (simp_all add: and_then_def returns_def)

text \<open>
  What \<^verbatim>\<open>gather\<close> issues on the root for every valid call: each of the receives carries
  the translated count \<open>oc\<close> of the whole of \<^verbatim>\<open>out_array\<close>.
\<close>

lemma gather_root_trace:
  assumes "check_contiguous in_array = returns ()"
    and "check_contiguous out_array = returns ()"
    and "shape out_array = d # ds" and "int d = n_devices self"
    and "length (slices out_array) = d"
    and "get_nccl_dtype_and_count in_array = returns (it, ic)"
    and "get_nccl_dtype_and_count out_array = returns (ot, oc)"
    and "default_root root = rank self"
  shows "gather self in_array out_array root stream =
     (Inr (),
      NcclGroupStart #
      map (\<lambda>k. Comm_recv (ptr (data (slices out_array ! k))) oc ot (int k)
                 (case stream of None \<Rightarrow> current_stream self | Some s \<Rightarrow> s)) [0 ..< d] @
      [Comm_send (ptr (data in_array)) it ic (rank self)
         (case stream of None \<Rightarrow> current_stream self | Some s \<Rightarrow> s),
       NcclGroupEnd])"
proof -
  let ?st = "case stream of None \<Rightarrow> current_stream self | Some s \<Rightarrow> s"
  have loop: "for_each (range_py (n_devices self)) (\<lambda>i.
                and_then (getitem out_array i) (\<lambda>array.
                and_then (get_nccl_dtype_and_count out_array) (\<lambda>(odtype, ocount).
                recv_priv self array (int i) odtype ocount ?st)))
              = (Inr (), map (\<lambda>k. Comm_recv (ptr (data (slices out_array ! k))) oc ot (int k) ?st)
                           [0 ..< d])"
  proof -
    from assms(4) have rng: "range_py (n_devices self) = [0 ..< d]"
      by (simp add: range_py_def flip: assms(4))
    have one: "and_then (getitem out_array i) (\<lambda>array.
                and_then (get_nccl_dtype_and_count out_array) (\<lambda>(odtype, ocount).
                recv_priv self array (int i) odtype ocount ?st))
             = (Inr (), [Comm_recv (ptr (data (slices out_array ! i))) oc ot (int i) ?st])"
      if "i \<in> set [0 ..< d]" for i
      using that assms(5,7)
      by (simp add: getitem_def and_then_returns recv_priv_def issue_def)
    show ?thesis
      unfolding rng by (rule for_each_issues) (rule one)
  qed
  from assms(1-4,8)
  have "gather self in_array out_array root stream =
          and_then (issue NcclGroupStart) (\<lambda>_.
          and_then (for_each (range_py (n_devices self)) (\<lambda>i.
                      and_then (getitem out_array i) (\<lambda>array.
                      and_then (get_nccl_dtype_and_count out_array) (\<lambda>(odtype, ocount).
                      recv_priv self array (int i) odtype ocount ?st)))) (\<lambda>_.
          and_then (get_nccl_dtype_and_count in_array) (\<lambda>(dtype, count).
          and_then (send_priv self in_array (rank self) dtype count ?st) (\<lambda>_.
          issue NcclGroupEnd))))"
    by (simp add: gather_def shape_0_def and_then_returns get_stream_returns)
  also have "\<dots> = (Inr (),
      NcclGroupStart #
      map (\<lambda>k. Comm_recv (ptr (data (slices out_array ! k))) oc ot (int k) ?st) [0 ..< d] @
      [Comm_send (ptr (data in_array)) it ic (rank self) ?st, NcclGroupEnd])"
    unfolding loop using assms(6)
    by (simp add: and_then_def returns_def issue_def send_priv_def)
  finally show ?thesis .
qed

text \<open>
  Claim C6: on a valid call \<^verbatim>\<open>gather(in, out, root)\<close> every rank issues one send of its
  whole \<^verbatim>\<open>in\<close> to root, and root issues \<open>size\<close> receives, the \<open>i\<close>-th into the pointer
  of \<^verbatim>\<open>out[i]\<close> with the translated element count of that slice, all inside one group.

  In the root's loop the source translates \<^verbatim>\<open>out_array\<close>, not the slice
  \<^verbatim>\<open>array = out_array[i]\<close>. On the root of a group of two, with \<^verbatim>\<open>in\<close> a 2 by 2 float32
  matrix (4 elements) and \<^verbatim>\<open>out\<close> of shape (2, 2, 2) (8 elements, slices of 4), both
  receives carry count 8, the count of the whole of \<^verbatim>\<open>out\<close>; the slices hold 4.
  Lemma \<open>gather_root_trace\<close> gives the calls of the root for every valid call.
\<close>

theorem gather_root_receives_whole_count:
  "wf_ndarray (cube_c CHR ''f'' 8192) \<and>
   map arr_size (slices (cube_c CHR ''f'' 8192)) = [4, 4] \<and>
   gather proc0 (matrix_c 2 CHR ''f'' 4096) (cube_c CHR ''f'' 8192) (Some 0) None
     = (Inr (),
        [NcclGroupStart,
         Comm_recv 8192 8 NCCL_FLOAT32 0 7,
         Comm_recv 8208 8 NCCL_FLOAT32 1 7,
         Comm_send 4096 NCCL_FLOAT32 4 0 7,
         NcclGroupEnd])"
  by (simp add: upt_rec gather_def wf_ndarray_def run_defs input_defs)

text \<open>
  Claim C7: \<^verbatim>\<open>all_to_all(in, out)\<close> fails with a shape error before any transport call
  whenever the leading dimension of \<^verbatim>\<open>in\<close> or of \<^verbatim>\<open>out\<close> differs from the group size.

  Both tests of the source read \<^verbatim>\<open>out_array.shape[0]\<close>, the first under the message
  that names \<^verbatim>\<open>in_array\<close>. In a group of two, with \<^verbatim>\<open>in\<close> of shape (3, 2) and \<^verbatim>\<open>out\<close>
  of shape (2, 2), the call raises nothing and issues two sends and two receives.
\<close>

theorem all_to_all_accepts_wrong_in_shape:
  "shape (matrix_c 3 CHR ''f'' 4096) = [3, 2] \<and> n_devices proc0 = 2 \<and>
   all_to_all proc0 (matrix_c 3 CHR ''f'' 4096) (matrix_c 2 CHR ''f'' 8192) None
     = (Inr (),
        [NcclGroupStart,
         Comm_send 4096 NCCL_FLOAT32 2 0 7,
         Comm_recv 8192 2 NCCL_FLOAT32 0 7,
         Comm_send 4104 NCCL_FLOAT32 2 1 7,
         Comm_recv 8200 2 NCCL_FLOAT32 1 7,
         NcclGroupEnd])"
  by (simp add: upt_rec all_to_all_def run_defs input_defs)

section \<open>Host-side synchronisation\<close>

text \<open>
  Claim C9: \<^verbatim>\<open>cpu_broadcast(value, root)\<close> distributes the value of the root rank to every
  other rank through the rendezvous store, so that afterwards every rank observes root's
  value; the device transport is never invoked.

  The body of the source is that of \<^verbatim>\<open>cpu_barrier\<close>: on every rank, for every value and
  every root, the call issues the one call \<^verbatim>\<open>wait_until('barrier', 0)\<close> of the store
  proxy and returns \<^verbatim>\<open>None\<close>. It writes no value to the store, reads none, and its
  result does not depend on \<^verbatim>\<open>value\<close> or \<^verbatim>\<open>root\<close>; no transport call is issued.
\<close>

theorem cpu_broadcast_only_waits:
  "cpu_broadcast self v root = (Inr (), [Proxy_wait_until ''barrier'' 0]) \<and>
   cpu_broadcast self v root = cpu_barrier self \<and>
   filter is_transport (snd (cpu_broadcast self v root)) = []"
  by (simp add: cpu_broadcast_def cpu_barrier_def issue_def)

section \<open>Defaults of the optional parameters\<close>

text \<open>
  Claim C10: when the caller omits them, the reduction operator is \<^verbatim>\<open>'sum'\<close> for
  \<^verbatim>\<open>all_reduce\<close>, \<^verbatim>\<open>reduce\<close> and \<^verbatim>\<open>reduce_scatter\<close>, and the root is 0 for \<^verbatim>\<open>reduce\<close>,
  \<^verbatim>\<open>broadcast\<close>, \<^verbatim>\<open>scatter\<close>, \<^verbatim>\<open>gather\<close> and \<^verbatim>\<open>cpu_broadcast\<close>.
\<close>

theorem omitted_parameters_default:
  "all_reduce self i out None s = all_reduce self i out (Some ''sum'') s \<and>
   reduce self i out root None s = reduce self i out root (Some ''sum'') s \<and>
   reduce_scatter self i out None s = reduce_scatter self i out (Some ''sum'') s \<and>
   reduce self i out None op s = reduce self i out (Some 0) op s \<and>
   broadcast self i None s = broadcast self i (Some 0) s \<and>
   scatter self i out None s = scatter self i out (Some 0) s \<and>
   gather self i out None s = gather self i out (Some 0) s \<and>
   cpu_broadcast self v None = cpu_broadcast self v (Some 0) \<and>
   default_op None = ''sum'' \<and> default_root None = 0"
  by (simp add: all_reduce_def reduce_def reduce_scatter_def broadcast_def scatter_def
      gather_def cpu_broadcast_def default_op_def default_root_def)

section \<open>Validation before transport\<close>

lemma for_each_error:
  "fst (for_each xs body) = Inl e \<Longrightarrow> \<exists>i \<in> set xs. fst (body i) = Inl e"
proof (induction xs)
  case Nil
  then show ?case by (simp add: returns_def)
next
  case (Cons x xs)
  then show ?case
    by (cases "body x"; cases "fst (body x)"; cases "for_each xs body")
       (auto simp: and_then_def)
qed

lemma and_then_error:
  "fst (and_then m f) = Inl e \<Longrightarrow> fst m = Inl e \<or> (\<exists>x. fst (f x) = Inl e)"
proof (cases m)
  case (Pair r t)
  assume h: "fst (and_then m f) = Inl e"
  show ?thesis
  proof (cases r)
    case (Inl e')
    with Pair h show ?thesis by (simp add: and_then_def)
  next
    case (Inr x)
    with Pair h have "fst (f x) = Inl e"
      by (cases "f x") (simp add: and_then_def)
    then show ?thesis by blast
  qed
qed

lemma translation_error:
  "fst (get_nccl_dtype_and_count a) \<noteq> Inl (RuntimeError m)"
  by (simp add: get_nccl_dtype_and_count_def Let_def returns_def raises_def split: option.splits)

lemma getitem_error: "fst (getitem a i) \<noteq> Inl (RuntimeError m)"
  by (simp add: getitem_def returns_def raises_def)

lemma issue_error: "fst (issue ev) \<noteq> Inl e"
  by (simp add: issue_def)

lemma returns_error: "fst (returns x) \<noteq> Inl e"
  by (simp add: returns_def)

text \<open>Whatever is raised after the group has been opened is not a \<^verbatim>\<open>RuntimeError\<close>.\<close>

lemma scatter_group_error:
  "fst (and_then (if root = rank self
               then for_each (range_py (n_devices self)) (\<lambda>i.
                      and_then (getitem in_array i) (\<lambda>array.
                      and_then (get_nccl_dtype_and_count out_array) (\<lambda>(idtype, icount).
                      send_priv self array (int i) idtype icount stream)))
               else returns ()) (\<lambda>_.
     and_then (get_nccl_dtype_and_count out_array) (\<lambda>(dtype, count).
     and_then (recv_priv self out_array root dtype count stream) (\<lambda>_.
     issue NcclGroupEnd)))) \<noteq> Inl (RuntimeError m)"
proof
  assume "fst (and_then (if root = rank self
               then for_each (range_py (n_devices self)) (\<lambda>i.
                      and_then (getitem in_array i) (\<lambda>array.
                      and_then (get_nccl_dtype_and_count out_array) (\<lambda>(idtype, icount).
                      send_priv self array (int i) idtype icount stream)))
               else returns ()) (\<lambda>_.
     and_then (get_nccl_dtype_and_count out_array) (\<lambda>(dtype, count).
     and_then (recv_priv self out_array root dtype count stream) (\<lambda>_.
     issue NcclGroupEnd)))) = Inl (RuntimeError m)"
  then show False
    by (auto dest!: and_then_error for_each_error
        simp: translation_error getitem_error issue_error returns_error
          send_priv_def recv_priv_def split: if_splits)
qed

lemma gather_group_error:
  "fst (and_then (if root = rank self
               then for_each (range_py (n_devices self)) (\<lambda>i.
                      and_then (getitem out_array i) (\<lambda>array.
                      and_then (get_nccl_dtype_and_count out_array) (\<lambda>(odtype, ocount).
                      recv_priv self array (int i) odtype ocount stream)))
               else returns ()) (\<lambda>_.
     and_then (get_nccl_dtype_and_count in_array) (\<lambda>(dtype, count).
     and_then (send_priv self in_array root dtype count stream) (\<lambda>_.
     issue NcclGroupEnd)))) \<noteq> Inl (RuntimeError m)"
proof
  assume "fst (and_then (if root = rank self
               then for_each (range_py (n_devices self)) (\<lambda>i.
                      and_then (getitem out_array i) (\<lambda>array.
                      and_then (get_nccl_dtype_and_count out_array) (\<lambda>(odtype, ocount).
                      recv_priv self array (int i) odtype ocount stream)))
               else returns ()) (\<lambda>_.
     and_then (get_nccl_dtype_and_count in_array) (\<lambda>(dtype, count).
     and_then (send_priv self in_array root dtype count stream) (\<lambda>_.
     issue NcclGroupEnd)))) = Inl (RuntimeError m)"
  then show False
    by (auto dest!: and_then_error for_each_error
        simp: translation_error getitem_error issue_error returns_error
          send_priv_def recv_priv_def split: if_splits)
qed

lemma and_then_Inl: "and_then (Inl e, t) f = (Inl e, t)"
  by (simp add: and_then_def)

lemma and_then_Inr: "and_then (Inr x, []) f = f x"
  by (simp add: and_then_def split: prod.splits)

lemmas prefix_simps =
  and_then_returns and_then_raises and_then_Inl and_then_Inr raises_def returns_def

lemma and_then_issue_fst: "fst (and_then (issue ev) f) = fst (f ())"
  by (simp add: and_then_issue)

lemma scatter_checks:
  "check_contiguous i \<noteq> returns () \<or> check_contiguous out \<noteq> returns ()
     \<Longrightarrow> \<exists>e. scatter self i out root s = (Inl e, [])"
  using check_contiguous_cases [of i] check_contiguous_cases [of out]
  by (cases "shape i")
     (auto simp: scatter_def shape_0_def prefix_simps)

lemma scatter_layout_error:
  assumes "fst (scatter self i out root s) = Inl (RuntimeError Not_contiguous)"
  shows "snd (scatter self i out root s) = []"
proof (cases "check_contiguous i = returns () \<and> check_contiguous out = returns ()")
  case False
  then show ?thesis using scatter_checks [of i out self root s] by auto
next
  case True
  show ?thesis
  proof (cases "shape i")
    case Nil
    then show ?thesis by (simp add: scatter_def shape_0_def prefix_simps)
  next
    case (Cons d ds)
    show ?thesis
    proof (cases "int d = n_devices self")
      case False
      with Cons show ?thesis
        by (simp add: scatter_def shape_0_def prefix_simps)
    next
      case same: True
      from Cons same True
      have "fst (scatter self i out root s) \<noteq> Inl (RuntimeError Not_contiguous)"
        by (simp add: scatter_def shape_0_def and_then_returns get_stream_returns
            and_then_issue_fst scatter_group_error)
      with assms show ?thesis by simp
    qed
  qed
qed

lemma gather_checks:
  "check_contiguous i \<noteq> returns () \<or> check_contiguous out \<noteq> returns ()
     \<Longrightarrow> \<exists>e. gather self i out root s = (Inl e, [])"
  using check_contiguous_cases [of i] check_contiguous_cases [of out]
  by (cases "shape out")
     (auto simp: gather_def shape_0_def prefix_simps)

lemma gather_layout_error:
  assumes "fst (gather self i out root s) = Inl (RuntimeError Not_contiguous)"
  shows "snd (gather self i out root s) = []"
proof (cases "check_contiguous i = returns () \<and> check_contiguous out = returns ()")
  case False
  then show ?thesis using gather_checks [of i out self root s] by auto
next
  case True
  show ?thesis
  proof (cases "shape out")
    case Nil
    then show ?thesis by (simp add: gather_def shape_0_def prefix_simps)
  next
    case (Cons d ds)
    show ?thesis
    proof (cases "int d = n_devices self")
      case False
      with Cons show ?thesis
        by (simp add: gather_def shape_0_def prefix_simps)
    next
      case same: True
      from Cons same True
      have "fst (gather self i out root s) \<noteq> Inl (RuntimeError Not_contiguous)"
        by (simp add: gather_def shape_0_def and_then_returns get_stream_returns
            and_then_issue_fst gather_group_error)
      with assms show ?thesis by simp
    qed
  qed
qed

lemma all_to_all_checks:
  "check_contiguous i \<noteq> returns () \<or> check_contiguous out \<noteq> returns ()
     \<Longrightarrow> \<exists>e. all_to_all self i out s = (Inl e, [])"
  using check_contiguous_cases [of i] check_contiguous_cases [of out]
  by (cases "shape out")
     (auto simp: all_to_all_def shape_0_def prefix_simps)

lemma all_to_all_layout_error:
  assumes "fst (all_to_all self i out s) = Inl (RuntimeError Not_contiguous)"
  shows "snd (all_to_all self i out s) = []"
proof (cases "check_contiguous i = returns () \<and> check_contiguous out = returns ()")
  case False
  then show ?thesis using all_to_all_checks [of i out self s] by auto
next
  case True
  show ?thesis
  proof (cases "shape out")
    case Nil
    then show ?thesis by (simp add: all_to_all_def shape_0_def prefix_simps)
  next
    case (Cons d ds)
    show ?thesis
    proof (cases "int d = n_devices self")
      case False
      with Cons show ?thesis
        by (simp add: all_to_all_def shape_0_def prefix_simps)
    next
      case same: True
      have "fst (and_then (getitem i 0) (\<lambda>in0.
              and_then (get_nccl_dtype_and_count in0) (\<lambda>(idtype, icount).
              and_then (getitem out 0) (\<lambda>out0.
              and_then (get_nccl_dtype_and_count out0) (\<lambda>(odtype, ocount).
              and_then (issue NcclGroupStart) (\<lambda>_.
              and_then (for_each (range_py (n_devices self)) (\<lambda>k.
                 and_then (getitem i k) (\<lambda>in_i.
                 and_then (send_priv self in_i (int k) idtype icount st) (\<lambda>_.
                 and_then (getitem out k) (\<lambda>out_i.
                 recv_priv self out_i (int k) odtype ocount st))))) (\<lambda>_.
              issue NcclGroupEnd))))))) \<noteq> Inl (RuntimeError Not_contiguous)" for st
      proof
        assume "fst (and_then (getitem i 0) (\<lambda>in0.
              and_then (get_nccl_dtype_and_count in0) (\<lambda>(idtype, icount).
              and_then (getitem out 0) (\<lambda>out0.
              and_then (get_nccl_dtype_and_count out0) (\<lambda>(odtype, ocount).
              and_then (issue NcclGroupStart) (\<lambda>_.
              and_then (for_each (range_py (n_devices self)) (\<lambda>k.
                 and_then (getitem i k) (\<lambda>in_i.
                 and_then (send_priv self in_i (int k) idtype icount st) (\<lambda>_.
                 and_then (getitem out k) (\<lambda>out_i.
                 recv_priv self out_i (int k) odtype ocount st))))) (\<lambda>_.
              issue NcclGroupEnd))))))) = Inl (RuntimeError Not_contiguous)"
        then show False
          by (auto dest!: and_then_error for_each_error
              simp: translation_error getitem_error issue_error send_priv_def recv_priv_def)
      qed
      with Cons same True
      have "fst (all_to_all self i out s) \<noteq> Inl (RuntimeError Not_contiguous)"
        by (simp add: all_to_all_def shape_0_def and_then_returns get_stream_returns)
      with assms show ?thesis by simp
    qed
  qed
qed

lemmas flat_defs =
  and_then_def returns_def raises_def issue_def check_contiguous_def get_stream_def
  get_nccl_dtype_and_count_def Let_def get_op_def getattr_data_ptr_def send_priv_def
  recv_priv_def

lemma single_call_error:
  "fst (all_reduce self i out op s) = Inl e \<Longrightarrow> snd (all_reduce self i out op s) = []"
  "fst (reduce self i out root op s) = Inl e \<Longrightarrow> snd (reduce self i out root op s) = []"
  "fst (broadcast self i root s) = Inl e \<Longrightarrow> snd (broadcast self i root s) = []"
  "fst (reduce_scatter self i out op s) = Inl e \<Longrightarrow> snd (reduce_scatter self i out op s) = []"
  "fst (all_gather self i out s) = Inl e \<Longrightarrow> snd (all_gather self i out s) = []"
  "fst (send self i peer s) = Inl e \<Longrightarrow> snd (send self i peer s) = []"
  "fst (recv self i peer s) = Inl e \<Longrightarrow> snd (recv self i peer s) = []"
  "fst (send_recv self i out peer s) = Inl e \<Longrightarrow> snd (send_recv self i out peer s) = []"
  by (auto simp: all_reduce_def reduce_def broadcast_def reduce_scatter_def all_gather_def
      send_def recv_def send_recv_def flat_defs split: option.splits if_splits)

lemma single_call_checks:
  "check_contiguous i \<noteq> returns () \<or> check_contiguous out \<noteq> returns ()
     \<Longrightarrow> \<exists>e. all_reduce self i out op s = (Inl e, [])"
  "check_contiguous i \<noteq> returns () \<or> rank self = default_root root \<and> check_contiguous out \<noteq> returns ()
     \<Longrightarrow> \<exists>e. reduce self i out root op s = (Inl e, [])"
  "check_contiguous i \<noteq> returns () \<Longrightarrow> \<exists>e. broadcast self i root s = (Inl e, [])"
  "check_contiguous i \<noteq> returns () \<or> check_contiguous out \<noteq> returns ()
     \<Longrightarrow> \<exists>e. reduce_scatter self i out op s = (Inl e, [])"
  "check_contiguous i \<noteq> returns () \<or> check_contiguous out \<noteq> returns ()
     \<Longrightarrow> \<exists>e. all_gather self i out s = (Inl e, [])"
  "check_contiguous i \<noteq> returns () \<Longrightarrow> \<exists>e. send self i peer s = (Inl e, [])"
  "check_contiguous i \<noteq> returns () \<Longrightarrow> \<exists>e. recv self i peer s = (Inl e, [])"
  "check_contiguous i \<noteq> returns () \<or> check_contiguous out \<noteq> returns ()
     \<Longrightarrow> \<exists>e. send_recv self i out peer s = (Inl e, [])"
  using check_contiguous_cases [of i] check_contiguous_cases [of out]
  by (auto simp: all_reduce_def reduce_def broadcast_def reduce_scatter_def all_gather_def
      send_def recv_def send_recv_def prefix_simps)

text \<open>
  In \<^verbatim>\<open>scatter\<close> and \<^verbatim>\<open>gather\<close> the element type is translated after the group has been
  opened: on a rank other than the root, arrays that pass the shape and layout checks
  and have an unsupported element type raise \<^verbatim>\<open>TypeError\<close> after \<^verbatim>\<open>ncclGroupStart\<close>.
\<close>

lemma scatter_gather_type_error_in_group:
  assumes "check_contiguous in_array = returns ()"
    and "check_contiguous out_array = returns ()"
    and "default_root root \<noteq> rank self"
  shows "shape in_array = d # ds \<Longrightarrow> int d = n_devices self \<Longrightarrow>
           nccl_dtypes (dtype_char out_array) = None \<Longrightarrow>
           scatter self in_array out_array root stream
             = (Inl (TypeError (Unknown_dtype (dtype_char out_array))), [NcclGroupStart])"
    and "shape out_array = d # ds \<Longrightarrow> int d = n_devices self \<Longrightarrow>
           nccl_dtypes (dtype_char in_array) = None \<Longrightarrow>
           gather self in_array out_array root stream
             = (Inl (TypeError (Unknown_dtype (dtype_char in_array))), [NcclGroupStart])"
  using assms
  by (simp_all add: scatter_def gather_def shape_0_def and_then_returns get_stream_returns
      and_then_issue get_nccl_dtype_and_count_def and_then_raises and_then_Inl raises_def)

text \<open>
  Claim C8: for every public data-moving operation and every buffer argument it takes,
  the contiguity of the buffer is validated on every calling rank, whether or not that
  rank is the root, and any validation error is raised before any transport call.

  As stated the claim fails for \<^verbatim>\<open>reduce\<close>, which checks \<^verbatim>\<open>out_array\<close> under the guard
  \<^verbatim>\<open>if self.rank == root\<close>: on rank 1 with root 0, an output array that is contiguous
  in neither order is not rejected, and the \<^verbatim>\<open>reduce\<close> call is issued.
\<close>

theorem reduce_off_root_skips_out_check:
  "strided CHR ''f'' 8192
     \<in> set (buffer_args (Reduce (matrix_c 2 CHR ''f'' 4096) (strided CHR ''f'' 8192)
                (Some 0) (Some ''sum'') None)) \<and>
   c_contiguous (flags (strided CHR ''f'' 8192)) = False \<and>
   f_contiguous (flags (strided CHR ''f'' 8192)) = False \<and>
   check_contiguous (strided CHR ''f'' 8192) = (Inl (RuntimeError Not_contiguous), []) \<and>
   rank proc1 = 1 \<and>
   perform proc1 (Reduce (matrix_c 2 CHR ''f'' 4096) (strided CHR ''f'' 8192)
     (Some 0) (Some ''sum'') None)
     = (Inr (), [Comm_reduce 4096 8192 4 NCCL_FLOAT32 NCCL_SUM 0 7])"
  by (simp add: reduce_def run_defs input_defs)

text \<open>
  Claim C8 as amended: every data-moving operation passes every buffer argument to the
  layout check on every rank, except that \<^verbatim>\<open>reduce\<close> checks its output buffer on the
  root rank only; a call with a checked buffer that fails the check ends in an error
  with no transport call issued, and whenever the layout error is raised no transport
  call has been issued.
\<close>

theorem contiguity_checked_before_transport:
  "(a \<in> set (checked_args self c) \<and> check_contiguous a \<noteq> returns ()
      \<longrightarrow> (\<exists>e. perform self c = (Inl e, []))) \<and>
   (fst (perform self c) = Inl (RuntimeError Not_contiguous) \<longrightarrow> snd (perform self c) = []) \<and>
   (checked_args self c = buffer_args c \<or>
      (\<exists>i out root op s. c = Reduce i out root op s \<and> rank self \<noteq> default_root root \<and>
         checked_args self c = [i]))"
proof (intro conjI impI)
  assume h: "a \<in> set (checked_args self c) \<and> check_contiguous a \<noteq> returns ()"
  show "\<exists>e. perform self c = (Inl e, [])"
  proof (cases c)
    case (Reduce i out root op s)
    with h show ?thesis
      using single_call_checks(2) [of i self root out op s]
      by (auto split: if_splits)
  next
    case (Scatter i out root s)
    with h show ?thesis using scatter_checks [of i out self root s] by auto
  next
    case (Gather i out root s)
    with h show ?thesis using gather_checks [of i out self root s] by auto
  next
    case (All_to_all i out s)
    with h show ?thesis using all_to_all_checks [of i out self s] by auto
  qed (use h in \<open>auto intro: single_call_checks\<close>)
next
  assume "fst (perform self c) = Inl (RuntimeError Not_contiguous)"
  then show "snd (perform self c) = []"
    by (cases c)
       (simp_all add: single_call_error scatter_layout_error gather_layout_error
          all_to_all_layout_error)
next
  show "checked_args self c = buffer_args c \<or>
      (\<exists>i out root op s. c = Reduce i out root op s \<and> rank self \<noteq> default_root root \<and>
         checked_args self c = [i])"
    by (cases c) auto
qed

theorem contiguity_checked_before_transport_witness:
  "strided CHR ''f'' 8192
     \<in> set (checked_args proc0 (Reduce (matrix_c 2 CHR ''f'' 4096) (strided CHR ''f'' 8192)
                (Some 0) (Some ''sum'') None)) \<and>
   check_contiguous (strided CHR ''f'' 8192) \<noteq> returns () \<and>
   perform proc0 (Reduce (matrix_c 2 CHR ''f'' 4096) (strided CHR ''f'' 8192)
     (Some 0) (Some ''sum'') None) = (Inl (RuntimeError Not_contiguous), []) \<and>
   (\<exists>e. perform proc0 (Reduce (matrix_c 2 CHR ''f'' 4096) (strided CHR ''f'' 8192)
     (Some 0) (Some ''sum'') None) = (Inl e, []))"
proof -
  have a: "strided CHR ''f'' 8192
     \<in> set (checked_args proc0 (Reduce (matrix_c 2 CHR ''f'' 4096) (strided CHR ''f'' 8192)
                (Some 0) (Some ''sum'') None))"
    by (simp add: proc0_def default_root_def)
  have b: "check_contiguous (strided CHR ''f'' 8192) \<noteq> returns ()"
    by (simp add: check_contiguous_def strided_def returns_def raises_def)
  have c: "perform proc0 (Reduce (matrix_c 2 CHR ''f'' 4096) (strided CHR ''f'' 8192)
     (Some 0) (Some ''sum'') None) = (Inl (RuntimeError Not_contiguous), [])"
    by (simp add: reduce_def run_defs input_defs)
  from a b c
    contiguity_checked_before_transport [of "strided CHR ''f'' 8192" proc0
      "Reduce (matrix_c 2 CHR ''f'' 4096) (strided CHR ''f'' 8192) (Some 0) (Some ''sum'') None"]
  show ?thesis by blast
qed

section \<open>The construction ends with one identifier in the whole group\<close>

lemma length_filter_update:
  "r < length xs \<Longrightarrow>
     length (filter P (xs[r := y])) + (if P (xs ! r) then 1 else 0)
       = length (filter P xs) + (if P y then 1 else 0)"
proof (induction xs arbitrary: r)
  case Nil
  then show ?case by simp
next
  case (Cons x xs)
  then show ?case by (cases r) auto
qed

lemma init_program_0:
  "init_program 0 =
     [Store_run, Get_unique_id, Proxy_setitem ''nccl_id'', Barrier_check_in, Barrier_wait,
      Make_communicator]"
  by (simp add: init_program_def)

lemma init_program_other:
  "rk \<noteq> 0 \<Longrightarrow>
     init_program rk = [Barrier_check_in, Barrier_wait, Proxy_getitem ''nccl_id'', Make_communicator]"
  by (simp add: init_program_def)

lemma world_inv_init: "0 < N \<Longrightarrow> world_inv N uid (init_world N)"
  by (auto simp: world_inv_def init_world_def proc_inv_def has_id_def finished_def
      next_action_def past_barrier_def checked_in_def init_program_def filter_empty_conv
      nth_append)

lemmas local_defs =
  proc_inv_def has_id_def finished_def next_action_def past_barrier_def checked_in_def

lemma world_inv_put:
  assumes inv: "world_inv N uid w" and r: "r < N"
    and upd: "procs w' = (procs w)[r := p']"
    and rank: "self_rank p' = int r"
    and loc: "proc_inv N uid p'"
    and bar: "past_barrier p' \<Longrightarrow> N \<le> check_ins w'"
    and mono: "check_ins w \<le> check_ins w'"
    and srv: "serving w' = (if 1 \<le> pc (if r = 0 then p' else procs w ! 0) then Some N else None)"
    and key: "kv w' ''nccl_id'' = (if 3 \<le> pc (if r = 0 then p' else procs w ! 0) then Some uid else None)"
    and cnt: "check_ins w' + (if checked_in (procs w ! r) then 1 else 0)
                = check_ins w + (if checked_in p' then 1 else 0)"
  shows "world_inv N uid w'"
proof -
  from inv have len: "length (procs w) = N" and pos: "0 < N"
    and old: "\<And>q. q < N \<Longrightarrow> self_rank (procs w ! q) = int q \<and> proc_inv N uid (procs w ! q) \<and>
                (past_barrier (procs w ! q) \<longrightarrow> N \<le> check_ins w)"
    and count: "check_ins w = length (filter checked_in (procs w))"
    unfolding world_inv_def by blast+
  have each: "self_rank (procs w' ! q) = int q \<and> proc_inv N uid (procs w' ! q) \<and>
                (past_barrier (procs w' ! q) \<longrightarrow> N \<le> check_ins w')" if "q < N" for q
  proof (cases "q = r")
    case True
    with r len rank loc bar upd show ?thesis by simp
  next
    case False
    with that old [of q] mono upd show ?thesis by auto
  qed
  have zero: "procs w' ! 0 = (if r = 0 then p' else procs w ! 0)"
    using pos len upd by (simp add: nth_list_update)
  have "check_ins w' = length (filter checked_in (procs w'))"
    using length_filter_update [of r "procs w" checked_in p'] r len cnt count upd by simp
  with each zero srv key pos len upd show ?thesis
    by (simp add: world_inv_def)
qed

lemma step_inv:
  assumes inv: "world_inv N uid w" and st: "step uid w r = Some w'"
  shows "world_inv N uid w'"
proof -
  from inv have len: "length (procs w) = N" and pos: "0 < N"
    unfolding world_inv_def by blast+
  from st len have r: "r < N"
    by (simp add: step_def split: if_splits)
  define p where "p = procs w ! r"
  from inv r have rank: "self_rank p = int r" and loc: "proc_inv N uid p"
    and bar: "past_barrier p \<longrightarrow> N \<le> check_ins w"
    unfolding world_inv_def p_def by blast+
  from inv have srv: "serving w = (if 1 \<le> pc (procs w ! 0) then Some N else None)"
    and key: "kv w ''nccl_id'' = (if 3 \<le> pc (procs w ! 0) then Some uid else None)"
    and count: "check_ins w = length (filter checked_in (procs w))"
    unfolding world_inv_def by blast+
  have le: "check_ins w \<le> N"
    using count len length_filter_le [of checked_in "procs w"] by simp
  show ?thesis
  proof (cases "r = 0")
    case True
    with rank have r0: "self_rank p = 0" by simp
    from loc r0 have "pc p \<le> 6" by (simp add: proc_inv_def init_program_0)
    then consider "pc p = 0" | "pc p = 1" | "pc p = 2" | "pc p = 3" | "pc p = 4" | "pc p = 5" | "pc p = 6"
      by arith
    then show ?thesis
    proof cases
      case 1
      with st r len r0 loc have w': "w' = w\<lparr>serving := Some N,
          procs := (procs w)[r := p\<lparr>pc := pc p + 1\<rparr>]\<rparr>"
        by (simp add: step_def p_def [symmetric] next_action_def init_program_0 put_proc_def
            proc_inv_def)
      have upd: "procs w' = (procs w)[r := p\<lparr>pc := pc p + 1\<rparr>]"
        by (simp add: w')
      show ?thesis
        by (rule world_inv_put [OF inv r upd])
           (use inv r rank loc bar True 1 r0 key srv in
             \<open>auto simp: w' local_defs init_program_0 p_def\<close>)
    next
      case 2
      with st r len r0 loc have w': "w' = w\<lparr>procs := (procs w)[r := p\<lparr>nccl_id := Some uid, pc := pc p + 1\<rparr>]\<rparr>"
        by (simp add: step_def p_def [symmetric] next_action_def init_program_0 put_proc_def
            proc_inv_def)
      have upd: "procs w' = (procs w)[r := p\<lparr>nccl_id := Some uid, pc := pc p + 1\<rparr>]"
        by (simp add: w')
      show ?thesis
        by (rule world_inv_put [OF inv r upd])
           (use inv r rank loc bar True 2 r0 key srv in
             \<open>auto simp: w' local_defs init_program_0 p_def\<close>)
    next
      case 3
      with loc r0 have id: "nccl_id p = Some uid"
        by (simp add: proc_inv_def has_id_def)
      from 3 True srv have "serving w = Some N" by (simp add: p_def)
      with 3 id st r len r0 have w': "w' = w\<lparr>kv := (kv w)(''nccl_id'' \<mapsto> uid),
          procs := (procs w)[r := p\<lparr>pc := pc p + 1\<rparr>]\<rparr>"
        by (simp add: step_def p_def [symmetric] next_action_def init_program_0 put_proc_def
            store_set_def)
      have upd: "procs w' = (procs w)[r := p\<lparr>pc := pc p + 1\<rparr>]"
        by (simp add: w')
      show ?thesis
        by (rule world_inv_put [OF inv r upd])
           (use inv r rank loc bar True 3 r0 key srv in
             \<open>auto simp: w' local_defs init_program_0 p_def\<close>)
    next
      case 4
      from 4 True srv have "serving w = Some N" by (simp add: p_def)
      with 4 st r len r0 have w': "w' = w\<lparr>check_ins := check_ins w + 1,
          procs := (procs w)[r := p\<lparr>pc := pc p + 1\<rparr>]\<rparr>"
        by (simp add: step_def p_def [symmetric] next_action_def init_program_0 put_proc_def
            barrier_check_in_def)
      have upd: "procs w' = (procs w)[r := p\<lparr>pc := pc p + 1\<rparr>]"
        by (simp add: w')
      show ?thesis
        by (rule world_inv_put [OF inv r upd])
           (use inv r rank loc bar True 4 r0 key srv in
             \<open>auto simp: w' local_defs init_program_0 p_def\<close>)
    next
      case 5
      from 5 True srv have sv: "serving w = Some N" by (simp add: p_def)
      with 5 st r len r0 have w': "w' = w\<lparr>procs := (procs w)[r := p\<lparr>pc := pc p + 1\<rparr>]\<rparr>" and opn: "N \<le> check_ins w"
        by (simp_all add: step_def p_def [symmetric] next_action_def init_program_0 put_proc_def
            barrier_open_def split: if_splits)
      have upd: "procs w' = (procs w)[r := p\<lparr>pc := pc p + 1\<rparr>]"
        by (simp add: w')
      show ?thesis
        by (rule world_inv_put [OF inv r upd])
           (use inv r rank loc bar True 5 r0 key srv opn in
             \<open>auto simp: w' local_defs init_program_0 p_def\<close>)
    next
      case 6
      with loc r0 have id: "nccl_id p = Some uid"
        by (simp add: proc_inv_def has_id_def)
      from loc have nd: "self_n_devices p = int N" by (simp add: proc_inv_def)
      from 6 id nd st r len r0 have w': "w' = w\<lparr>procs := (procs w)[r := p\<lparr>self_comm := Some (int N, uid, 0), pc := pc p + 1\<rparr>]\<rparr>"
        by (simp add: step_def p_def [symmetric] next_action_def init_program_0 put_proc_def)
      have upd: "procs w' = (procs w)[r := p\<lparr>self_comm := Some (int N, uid, 0), pc := pc p + 1\<rparr>]"
        by (simp add: w')
      show ?thesis
        by (rule world_inv_put [OF inv r upd])
           (use inv r rank loc bar True 6 r0 key srv in
             \<open>auto simp: w' local_defs init_program_0 p_def\<close>)
    next
      case 7
      with st r len r0 show ?thesis
        by (simp add: step_def p_def [symmetric] next_action_def init_program_0)
    qed
  next
    case False
    with rank have rn: "self_rank p \<noteq> 0" by simp
    from False have "int r \<noteq> 0" by simp
    note prog = init_program_other [OF rn] init_program_other [OF \<open>int r \<noteq> 0\<close>]
    from loc rn have "pc p \<le> 4" by (simp add: proc_inv_def prog)
    then consider "pc p = 0" | "pc p = 1" | "pc p = 2" | "pc p = 3" | "pc p = 4"
      by arith
    then show ?thesis
    proof cases
      case 1
      with st r len have w': "w' = w\<lparr>check_ins := check_ins w + 1,
          procs := (procs w)[r := p\<lparr>pc := pc p + 1\<rparr>]\<rparr>"
        by (auto simp: step_def p_def [symmetric] next_action_def prog put_proc_def
            barrier_check_in_def split: option.splits)
      have upd: "procs w' = (procs w)[r := p\<lparr>pc := pc p + 1\<rparr>]"
        by (simp add: w')
      show ?thesis
        by (rule world_inv_put [OF inv r upd])
           (use inv r rank loc bar False 1 rn key srv in
             \<open>auto simp: w' local_defs prog p_def\<close>)
    next
      case 2
      with st r len have w': "w' = w\<lparr>procs := (procs w)[r := p\<lparr>pc := pc p + 1\<rparr>]\<rparr>" and sv: "serving w \<noteq> None"
        by (auto simp: step_def p_def [symmetric] next_action_def prog put_proc_def
            barrier_open_def split: option.splits if_splits)
      from st 2 r len sv srv have opn: "N \<le> check_ins w"
        by (auto simp: step_def p_def [symmetric] next_action_def prog put_proc_def
            barrier_open_def split: option.splits if_splits)
      have upd: "procs w' = (procs w)[r := p\<lparr>pc := pc p + 1\<rparr>]"
        by (simp add: w')
      show ?thesis
        by (rule world_inv_put [OF inv r upd])
           (use inv r rank loc bar False 2 rn key srv opn in
             \<open>auto simp: w' local_defs prog p_def\<close>)
    next
      case 3
      with st r len obtain v where got: "store_get ''nccl_id'' w = Some v"
        and w': "w' = w\<lparr>procs := (procs w)[r := p\<lparr>nccl_id := Some v, pc := pc p + 1\<rparr>]\<rparr>"
        by (auto simp: step_def p_def [symmetric] next_action_def prog put_proc_def
            split: option.splits)
      from got key have "v = uid"
        by (auto simp: store_get_def split: option.splits if_splits)
      have upd: "procs w' = (procs w)[r := p\<lparr>nccl_id := Some uid, pc := pc p + 1\<rparr>]"
        by (simp add: w' \<open>v = uid\<close>)
      show ?thesis
        by (rule world_inv_put [OF inv r upd])
           (use inv r rank loc bar False 3 rn key srv in
             \<open>auto simp: w' local_defs prog p_def\<close>)
    next
      case 4
      with loc rn have id: "nccl_id p = Some uid"
        by (simp add: proc_inv_def has_id_def)
      from loc have nd: "self_n_devices p = int N" by (simp add: proc_inv_def)
      from 4 id nd st r len rank have w': "w' = w\<lparr>procs := (procs w)[r := p\<lparr>self_comm := Some (int N, uid, int r), pc := pc p + 1\<rparr>]\<rparr>"
        by (simp add: step_def p_def [symmetric] next_action_def prog put_proc_def)
      have upd: "procs w' = (procs w)[r := p\<lparr>self_comm := Some (int N, uid, int r), pc := pc p + 1\<rparr>]"
        by (simp add: w')
      show ?thesis
        by (rule world_inv_put [OF inv r upd])
           (use inv r rank loc bar False 4 rn key srv in
             \<open>auto simp: w' local_defs prog p_def\<close>)
    next
      case 5
      with st r len show ?thesis
        by (simp add: step_def p_def [symmetric] next_action_def prog)
    qed
  qed
qed

lemma exec_inv: "world_inv N uid w \<Longrightarrow> world_inv N uid (exec uid w sched)"
proof (induction sched arbitrary: w)
  case Nil
  then show ?case by simp
next
  case (Cons r sched)
  show ?case
  proof (cases "step uid w r")
    case None
    with Cons show ?thesis by simp
  next
    case (Some w')
    with Cons.prems have "world_inv N uid w'" by (rule step_inv)
    with Cons.IH Some show ?thesis by simp
  qed
qed

lemma exec_append: "exec uid w (a @ b) = exec uid (exec uid w a) b"
  by (induction a arbitrary: w) simp_all

lemma world_inv_comm:
  assumes "world_inv N uid w" and "r < N"
  shows "self_comm (procs w ! r) =
           (if finished (procs w ! r) then Some (int N, uid, int r) else None)"
proof -
  from assms have "self_rank (procs w ! r) = int r" and "proc_inv N uid (procs w ! r)"
    unfolding world_inv_def by blast+
  then show ?thesis by (simp add: proc_inv_def)
qed

text \<open>A step moves one process one action forward and leaves the others alone.\<close>

lemma step_advances:
  assumes "step uid w r = Some w'"
  shows "\<exists>p'. procs w' = (procs w)[r := p'] \<and> r < length (procs w) \<and>
           self_rank p' = self_rank (procs w ! r) \<and> pc p' = pc (procs w ! r) + 1 \<and>
           pc (procs w ! r) < length (init_program (self_rank (procs w ! r)))"
  using assms
  by (auto simp: step_def Let_def next_action_def put_proc_def store_set_def
      barrier_check_in_def split: if_splits option.splits action.splits)

lemma sum_list_map_update:
  "r < length xs \<Longrightarrow>
     sum_list (map f (xs[r := y])) + f (xs ! r) = sum_list (map f xs) + (f y :: nat)"
proof (induction xs arbitrary: r)
  case Nil
  then show ?case by simp
next
  case (Cons x xs)
  then show ?case by (cases r) auto
qed

lemma step_remaining:
  assumes "step uid w r = Some w'"
  shows "remaining w' < remaining w"
proof -
  from step_advances [OF assms] obtain p' where
    upd: "procs w' = (procs w)[r := p']" and r: "r < length (procs w)"
    and rank: "self_rank p' = self_rank (procs w ! r)"
    and pc: "pc p' = pc (procs w ! r) + 1"
    and lt: "pc (procs w ! r) < length (init_program (self_rank (procs w ! r)))"
    by blast
  from sum_list_map_update [OF r, of "\<lambda>p. length (init_program (self_rank p)) - pc p" p']
    upd rank pc lt
  show ?thesis by (simp add: remaining_def)
qed

text \<open>No deadlock: while a process has not finished, some process can take a step.\<close>

lemma some_step_enabled:
  assumes inv: "world_inv N uid w" and r: "r < N" and unfin: "\<not> finished (procs w ! r)"
  shows "\<exists>q < N. step uid w q \<noteq> None"
proof -
  from inv have len: "length (procs w) = N" and pos: "0 < N"
    and old: "\<And>q. q < N \<Longrightarrow> self_rank (procs w ! q) = int q \<and> proc_inv N uid (procs w ! q)"
    and srv: "serving w = (if 1 \<le> pc (procs w ! 0) then Some N else None)"
    and key: "kv w ''nccl_id'' = (if 3 \<le> pc (procs w ! 0) then Some uid else None)"
    and count: "check_ins w = length (filter checked_in (procs w))"
    unfolding world_inv_def by blast+
  from old [OF pos] have r0: "self_rank (procs w ! 0) = 0" and loc0: "proc_inv N uid (procs w ! 0)"
    by simp_all
  show ?thesis
  proof (cases "pc (procs w ! 0) < 4")
    case True
    then consider "pc (procs w ! 0) = 0" | "pc (procs w ! 0) = 1" | "pc (procs w ! 0) = 2"
      | "pc (procs w ! 0) = 3"
      by arith
    then have "step uid w 0 \<noteq> None"
      using len pos r0 loc0 srv
      by cases
         (simp_all add: step_def next_action_def init_program_0 proc_inv_def has_id_def
            store_set_def barrier_check_in_def)
    with pos show ?thesis by blast
  next
    case False
    then have four: "4 \<le> pc (procs w ! 0)" by simp
    with srv key have sv: "serving w = Some N" and kv: "kv w ''nccl_id'' = Some uid"
      by simp_all
    show ?thesis
    proof (cases "\<exists>q < N. q \<noteq> 0 \<and> pc (procs w ! q) = 0")
      case True
      then obtain q where q: "q < N" "q \<noteq> 0" "pc (procs w ! q) = 0" by blast
      from old [OF q(1)] q(2) have "self_rank (procs w ! q) \<noteq> 0" by simp
      with q len sv have "step uid w q \<noteq> None"
        by (simp add: step_def next_action_def init_program_other barrier_check_in_def)
      with q(1) show ?thesis by blast
    next
      case False
      have "checked_in (procs w ! q)" if "q < N" for q
        using that False four old [OF that] r0
        by (cases "q = 0") (auto simp: checked_in_def)
      then have "\<forall>p \<in> set (procs w). checked_in p"
        using len by (auto simp: in_set_conv_nth)
      then have "filter checked_in (procs w) = procs w"
        by simp
      with count len have all_in: "check_ins w = N" by simp
      from old [OF r] have rank: "self_rank (procs w ! r) = int r"
        and loc: "proc_inv N uid (procs w ! r)" by simp_all
      have "step uid w r \<noteq> None"
      proof (cases "r = 0")
        case True
        with unfin four loc0 have "pc (procs w ! 0) = 4 \<or> pc (procs w ! 0) = 5"
          by (auto simp: finished_def next_action_def init_program_0 r0 proc_inv_def
              split: if_splits)
        then show ?thesis
          using True len pos r0 loc0 sv all_in
          by (auto simp: step_def Let_def next_action_def init_program_0 proc_inv_def
              has_id_def barrier_open_def)
      next
        case nz: False
        with rank have rn: "self_rank (procs w ! r) \<noteq> 0" by simp
        from nz r False have "pc (procs w ! r) \<noteq> 0" by auto
        with unfin rn have "pc (procs w ! r) = 1 \<or> pc (procs w ! r) = 2 \<or> pc (procs w ! r) = 3"
          by (auto simp: finished_def next_action_def init_program_other split: if_splits)
        then show ?thesis
          using r len rn loc sv kv all_in
          by (auto simp: step_def Let_def next_action_def init_program_other proc_inv_def
              has_id_def barrier_open_def store_get_def)
      qed
      with r show ?thesis by blast
    qed
  qed
qed

text \<open>From every group that the invariant describes, some schedule finishes every process.\<close>

lemma can_finish:
  "world_inv N uid w \<Longrightarrow> \<exists>more. \<forall>r < N. finished (procs (exec uid w more) ! r)"
proof (induction "remaining w" arbitrary: w rule: less_induct)
  case less
  show ?case
  proof (cases "\<forall>r < N. finished (procs w ! r)")
    case True
    then have "\<forall>r < N. finished (procs (exec uid w []) ! r)" by simp
    then show ?thesis by blast
  next
    case False
    then obtain r where "r < N" "\<not> finished (procs w ! r)" by blast
    from some_step_enabled [OF less.prems this]
    obtain q w' where st: "step uid w q = Some w'" by auto
    from step_inv [OF less.prems st] have inv': "world_inv N uid w'" .
    from less.hyps [OF step_remaining [OF st] inv']
    obtain more where "\<forall>r < N. finished (procs (exec uid w' more) ! r)" by blast
    with st have "\<forall>r < N. finished (procs (exec uid w (q # more)) ! r)" by simp
    then show ?thesis by blast
  qed
qed

text \<open>The history of a run and the group it leads to, step by step.\<close>

lemma history_append:
  "history uid w (a @ b) = history uid w a @ history uid (exec uid w a) b"
  by (induction a arbitrary: w) (simp_all split: option.splits)

lemma mem_actions_of: "(r, a) \<in> set h \<longleftrightarrow> a \<in> set (actions_of r h)"
  by (force simp: actions_of_def)

lemma take_program_0:
  "Store_run \<in> set (take k (init_program 0)) \<longleftrightarrow> 1 \<le> k"
  "Get_unique_id \<in> set (take k (init_program 0)) \<longleftrightarrow> 2 \<le> k"
  "Proxy_setitem key \<in> set (take k (init_program 0)) \<longleftrightarrow> key = ''nccl_id'' \<and> 3 \<le> k"
  "Barrier_check_in \<in> set (take k (init_program 0)) \<longleftrightarrow> 4 \<le> k"
  "Barrier_wait \<in> set (take k (init_program 0)) \<longleftrightarrow> 5 \<le> k"
  "Make_communicator \<in> set (take k (init_program 0)) \<longleftrightarrow> 6 \<le> k"
  "Proxy_getitem key \<notin> set (take k (init_program 0))"
  by (auto simp: init_program_0 take_Cons')

lemma take_program_other:
  assumes "rk \<noteq> 0"
  shows "Barrier_check_in \<in> set (take k (init_program rk)) \<longleftrightarrow> 1 \<le> k"
    and "Barrier_wait \<in> set (take k (init_program rk)) \<longleftrightarrow> 2 \<le> k"
    and "Proxy_getitem key \<in> set (take k (init_program rk)) \<longleftrightarrow> key = ''nccl_id'' \<and> 3 \<le> k"
    and "Make_communicator \<in> set (take k (init_program rk)) \<longleftrightarrow> 4 \<le> k"
    and "Store_run \<notin> set (take k (init_program rk))"
    and "Get_unique_id \<notin> set (take k (init_program rk))"
    and "Proxy_setitem key \<notin> set (take k (init_program rk))"
  by (auto simp: init_program_other [OF assms] take_Cons')

lemma history_inv:
  assumes pos: "0 < N"
  shows "world_inv N uid (exec uid (init_world N) sched) \<and>
         (\<forall>r < N. actions_of r (history uid (init_world N) sched)
                    = take (pc (procs (exec uid (init_world N) sched) ! r)) (init_program (int r)))"
proof (induction sched rule: rev_induct)
  case Nil
  from world_inv_init [OF pos, of uid] show ?case
    by (simp add: actions_of_def init_world_def)
next
  case (snoc q sched)
  define w where "w = exec uid (init_world N) sched"
  define h where "h = history uid (init_world N) sched"
  from snoc have inv: "world_inv N uid w"
    and acts: "\<And>r. r < N \<Longrightarrow> actions_of r h = take (pc (procs w ! r)) (init_program (int r))"
    by (simp_all add: w_def h_def)
  from inv have len: "length (procs w) = N"
    and ranks: "\<And>r. r < N \<Longrightarrow> self_rank (procs w ! r) = int r"
    unfolding world_inv_def by blast+
  show ?case
  proof (cases "step uid w q")
    case None
    with inv acts show ?thesis
      by (simp add: exec_append history_append w_def [symmetric] h_def [symmetric])
  next
    case (Some w')
    from step_advances [OF Some] obtain p' where
      upd: "procs w' = (procs w)[q := p']" and q: "q < length (procs w)"
      and pc: "pc p' = pc (procs w ! q) + 1"
      and lt: "pc (procs w ! q) < length (init_program (self_rank (procs w ! q)))"
      by blast
    from q len have qN: "q < N" by simp
    from lt ranks [OF qN]
    have nxt: "next_action (procs w ! q) = Some (init_program (int q) ! pc (procs w ! q))"
      and lt': "pc (procs w ! q) < length (init_program (int q))"
      by (simp_all add: next_action_def)
    have ex: "exec uid (init_world N) (sched @ [q]) = w'"
      and hi: "history uid (init_world N) (sched @ [q])
                 = h @ [(q, init_program (int q) ! pc (procs w ! q))]"
      using Some nxt
      by (simp_all add: exec_append history_append w_def [symmetric] h_def [symmetric])
    have "actions_of r (h @ [(q, init_program (int q) ! pc (procs w ! q))])
            = take (pc (procs w' ! r)) (init_program (int r))" if "r < N" for r
    proof (cases "r = q")
      case True
      with acts [OF qN] upd q pc lt' show ?thesis
        by (simp add: actions_of_def take_Suc_conv_app_nth)
    next
      case False
      with acts [OF that] upd show ?thesis
        by (simp add: actions_of_def)
    qed
    with step_inv [OF inv Some] show ?thesis
      unfolding ex hi by simp
  qed
qed


lemma all_checked_in:
  assumes inv: "world_inv N uid w" and full: "N \<le> check_ins w" and q: "q < N"
  shows "checked_in (procs w ! q)"
proof (rule ccontr)
  assume no: "\<not> checked_in (procs w ! q)"
  from inv have len: "length (procs w) = N"
    and count: "check_ins w = length (filter checked_in (procs w))"
    unfolding world_inv_def by blast+
  from q len have "procs w ! q \<in> set (procs w)" by simp
  with no have "length (filter checked_in (procs w)) < length (procs w)"
    by (simp add: length_filter_less)
  with count len full show False by simp
qed

text \<open>
  Claim C4: during construction rank 0 starts the rendezvous store, generates a fresh
  session identifier, publishes it under a fixed key and then executes the barrier; every
  other rank executes the barrier and then performs a blocking get of the identifier;
  consequently, for every group size \<open>N \<ge> 1\<close>, every rank constructs its transport
  handle from \<open>(N, identifier, own rank)\<close> with the identifier that rank 0 generated.

  For every schedule of the \<open>N\<close> processes, with \<open>w\<close> the group it leads to and \<open>h\<close> its
  history:
  \<^item> the actions of each rank in \<open>h\<close> are a prefix of its program, which is the source's
    order for rank 0 and for the other ranks;
  \<^item> the store listens, for \<open>N\<close> participants, exactly when rank 0 has started it; the
    local \<^verbatim>\<open>nccl_id\<close> of rank 0 holds \<open>uid\<close> exactly when rank 0 has generated it; the
    key \<^verbatim>\<open>'nccl_id'\<close> of the store holds \<open>uid\<close> exactly when rank 0 has published it;
  \<^item> a rank has left the barrier only when every rank has checked in;
  \<^item> another rank has its \<^verbatim>\<open>nccl_id\<close> exactly when its get has returned, it holds the
    value under the key, and then rank 0 has published before;
  \<^item> a rank has its handle exactly when it has constructed it, from \<open>N\<close>, its own
    \<^verbatim>\<open>nccl_id\<close> and its rank, and that is \<open>(N, uid, rank)\<close>;
  \<^item> the schedule can be continued so that every rank has its handle.
\<close>

theorem construction_agrees_on_identifier:
  assumes "1 \<le> N"
  shows "let w = exec uid (init_world N) sched; h = history uid (init_world N) sched in
         init_program 0 =
           [Store_run, Get_unique_id, Proxy_setitem ''nccl_id'', Barrier_check_in, Barrier_wait,
            Make_communicator] \<and>
         (\<forall>rk. rk \<noteq> 0 \<longrightarrow>
            init_program rk =
              [Barrier_check_in, Barrier_wait, Proxy_getitem ''nccl_id'', Make_communicator]) \<and>
         (\<forall>r < N. \<exists>k. actions_of r h = take k (init_program (int r))) \<and>
         serving w = (if (0, Store_run) \<in> set h then Some N else None) \<and>
         nccl_id (procs w ! 0) = (if (0, Get_unique_id) \<in> set h then Some uid else None) \<and>
         kv w ''nccl_id'' = (if (0, Proxy_setitem ''nccl_id'') \<in> set h then Some uid else None) \<and>
         (\<forall>r < N. (r, Barrier_wait) \<in> set h \<longrightarrow> (\<forall>q < N. (q, Barrier_check_in) \<in> set h)) \<and>
         (\<forall>r < N. r \<noteq> 0 \<longrightarrow>
            nccl_id (procs w ! r)
              = (if (r, Proxy_getitem ''nccl_id'') \<in> set h then kv w ''nccl_id'' else None) \<and>
            ((r, Proxy_getitem ''nccl_id'') \<in> set h \<longrightarrow>
               (0, Proxy_setitem ''nccl_id'') \<in> set h \<and> kv w ''nccl_id'' = Some uid)) \<and>
         (\<forall>r < N. comms w ! r
              = (if (r, Make_communicator) \<in> set h
                 then map_option (\<lambda>v. (int N, v, int r)) (nccl_id (procs w ! r)) else None) \<and>
            ((r, Make_communicator) \<in> set h \<longrightarrow> comms w ! r = Some (int N, uid, int r))) \<and>
         (\<exists>more. comms (exec uid (init_world N) (sched @ more))
            = map (\<lambda>r. Some (int N, uid, int r)) [0 ..< N])"
proof -
  from assms have pos: "0 < N" by simp
  define w where "w = exec uid (init_world N) sched"
  define h where "h = history uid (init_world N) sched"
  from history_inv [OF pos, of uid sched]
  have inv: "world_inv N uid w"
    and acts: "\<And>r. r < N \<Longrightarrow> actions_of r h = take (pc (procs w ! r)) (init_program (int r))"
    by (simp_all add: w_def h_def)
  have mem: "(r, a) \<in> set h \<longleftrightarrow> a \<in> set (take (pc (procs w ! r)) (init_program (int r)))"
    if "r < N" for r a
    using acts [OF that] mem_actions_of [of r a h] by simp
  note mem0 = mem [OF pos, simplified]
  from inv have len: "length (procs w) = N"
    and each: "\<And>q. q < N \<Longrightarrow> self_rank (procs w ! q) = int q \<and> proc_inv N uid (procs w ! q) \<and>
                (past_barrier (procs w ! q) \<longrightarrow> N \<le> check_ins w)"
    and srv: "serving w = (if 1 \<le> pc (procs w ! 0) then Some N else None)"
    and key: "kv w ''nccl_id'' = (if 3 \<le> pc (procs w ! 0) then Some uid else None)"
    unfolding world_inv_def by blast+
  have c1: "\<forall>r < N. \<exists>k. actions_of r h = take k (init_program (int r))"
    using acts by blast
  have c2: "serving w = (if (0, Store_run) \<in> set h then Some N else None)"
    using srv by (simp add: mem0 take_program_0)
  have c3: "nccl_id (procs w ! 0) = (if (0, Get_unique_id) \<in> set h then Some uid else None)"
    using each [OF pos] by (simp add: mem0 take_program_0 proc_inv_def has_id_def)
  have c4: "kv w ''nccl_id'' = (if (0, Proxy_setitem ''nccl_id'') \<in> set h then Some uid else None)"
    using key by (simp add: mem0 take_program_0)
  have past: "N \<le> check_ins w" if "r < N" "(r, Barrier_wait) \<in> set h" for r
  proof (cases "r = 0")
    case True
    with that each [OF pos] show ?thesis
      by (simp add: mem0 take_program_0 past_barrier_def)
  next
    case False
    then have "int r \<noteq> 0" by simp
    with that each [OF that(1)] show ?thesis
      by (simp add: mem [OF that(1)] take_program_other past_barrier_def)
  qed
  have entered: "(q, Barrier_check_in) \<in> set h" if "q < N" "N \<le> check_ins w" for q
  proof (cases "q = 0")
    case True
    with all_checked_in [OF inv that(2) that(1)] each [OF pos] show ?thesis
      by (simp add: mem0 take_program_0 checked_in_def)
  next
    case False
    then have "int q \<noteq> 0" by simp
    with all_checked_in [OF inv that(2) that(1)] each [OF that(1)] show ?thesis
      by (simp add: mem [OF that(1)] take_program_other checked_in_def)
  qed
  have c5: "\<forall>r < N. (r, Barrier_wait) \<in> set h \<longrightarrow> (\<forall>q < N. (q, Barrier_check_in) \<in> set h)"
    using past entered by blast
  have c6: "\<forall>r < N. r \<noteq> 0 \<longrightarrow>
            nccl_id (procs w ! r)
              = (if (r, Proxy_getitem ''nccl_id'') \<in> set h then kv w ''nccl_id'' else None) \<and>
            ((r, Proxy_getitem ''nccl_id'') \<in> set h \<longrightarrow>
               (0, Proxy_setitem ''nccl_id'') \<in> set h \<and> kv w ''nccl_id'' = Some uid)"
  proof (intro allI impI)
    fix r assume r: "r < N" and nz: "r \<noteq> 0"
    then have nz': "int r \<noteq> 0" by simp
    note memr = mem [OF r] take_program_other [OF nz']
    have got: "(0, Proxy_setitem ''nccl_id'') \<in> set h \<and> kv w ''nccl_id'' = Some uid"
      if "(r, Proxy_getitem ''nccl_id'') \<in> set h"
    proof -
      from that have "(r, Barrier_wait) \<in> set h" by (simp add: memr)
      from entered [OF pos past [OF r this]] have "(0, Proxy_setitem ''nccl_id'') \<in> set h"
        by (simp add: mem0 take_program_0)
      with c4 show ?thesis by simp
    qed
    from each [OF r] nz' have "nccl_id (procs w ! r)
        = (if (r, Proxy_getitem ''nccl_id'') \<in> set h then Some uid else None)"
      by (simp add: memr proc_inv_def has_id_def)
    with got show "nccl_id (procs w ! r)
              = (if (r, Proxy_getitem ''nccl_id'') \<in> set h then kv w ''nccl_id'' else None) \<and>
            ((r, Proxy_getitem ''nccl_id'') \<in> set h \<longrightarrow>
               (0, Proxy_setitem ''nccl_id'') \<in> set h \<and> kv w ''nccl_id'' = Some uid)"
      by auto
  qed
  have c7: "\<forall>r < N. comms w ! r
              = (if (r, Make_communicator) \<in> set h
                 then map_option (\<lambda>v. (int N, v, int r)) (nccl_id (procs w ! r)) else None) \<and>
            ((r, Make_communicator) \<in> set h \<longrightarrow> comms w ! r = Some (int N, uid, int r))"
  proof (intro allI impI)
    fix r assume r: "r < N"
    have "comms w ! r
              = (if (r, Make_communicator) \<in> set h then Some (int N, uid, int r) else None) \<and>
          ((r, Make_communicator) \<in> set h \<longrightarrow> nccl_id (procs w ! r) = Some uid)"
    proof (cases "r = 0")
      case True
      have "length (init_program 0) = 6" by (simp add: init_program_0)
      with True each [OF pos] len pos show ?thesis
        by (auto simp: comms_def mem0 take_program_0 proc_inv_def has_id_def finished_def
            next_action_def)
    next
      case False
      then have nz': "int r \<noteq> 0" by simp
      then have "length (init_program (int r)) = 4" by (simp add: init_program_other)
      with nz' each [OF r] len r show ?thesis
        by (auto simp: comms_def mem [OF r] take_program_other proc_inv_def has_id_def
            finished_def next_action_def)
    qed
    then show "comms w ! r
              = (if (r, Make_communicator) \<in> set h
                 then map_option (\<lambda>v. (int N, v, int r)) (nccl_id (procs w ! r)) else None) \<and>
            ((r, Make_communicator) \<in> set h \<longrightarrow> comms w ! r = Some (int N, uid, int r))"
      by auto
  qed
  from can_finish [OF inv] obtain more
    where fin: "\<forall>r < N. finished (procs (exec uid w more) ! r)" by blast
  have inv': "world_inv N uid (exec uid w more)"
    by (rule exec_inv [OF inv])
  then have len': "length (procs (exec uid w more)) = N"
    unfolding world_inv_def by blast
  have "comms (exec uid w more) = map (\<lambda>r. Some (int N, uid, int r)) [0 ..< N]"
    using world_inv_comm [OF inv'] fin len'
    by (auto simp: comms_def intro!: nth_equalityI)
  then have c8: "\<exists>more. comms (exec uid (init_world N) (sched @ more))
            = map (\<lambda>r. Some (int N, uid, int r)) [0 ..< N]"
    unfolding w_def exec_append [symmetric] by blast
  have c0: "init_program 0 =
           [Store_run, Get_unique_id, Proxy_setitem ''nccl_id'', Barrier_check_in, Barrier_wait,
            Make_communicator] \<and>
         (\<forall>rk. rk \<noteq> 0 \<longrightarrow>
            init_program rk =
              [Barrier_check_in, Barrier_wait, Proxy_getitem ''nccl_id'', Make_communicator])"
    by (simp add: init_program_0 init_program_other)
  from c0 c1 c2 c3 c4 c5 c6 c7 c8 show ?thesis
    unfolding Let_def w_def [symmetric] h_def [symmetric] by (intro conjI) blast+
qed

theorem construction_agrees_on_identifier_witness:
  "(1::nat) \<le> 2 \<and>
   history (99::nat) (init_world 2) [1, 0, 0, 0, 0, 1]
     = [(0, Store_run), (0, Get_unique_id), (0, Proxy_setitem ''nccl_id''),
        (0, Barrier_check_in), (1, Barrier_check_in)] \<and>
   kv (exec (99::nat) (init_world 2) [1, 0, 0, 0, 0, 1]) ''nccl_id'' = Some 99 \<and>
   comms (exec (99::nat) (init_world 2) [1, 0, 0, 0, 0, 1]) = [None, None] \<and>
   history (99::nat) (init_world 2) ([1, 0, 0, 0, 0, 1] @ [1, 1, 1, 0, 0])
     = [(0, Store_run), (0, Get_unique_id), (0, Proxy_setitem ''nccl_id''),
        (0, Barrier_check_in), (1, Barrier_check_in),
        (1, Barrier_wait), (1, Proxy_getitem ''nccl_id''), (1, Make_communicator),
        (0, Barrier_wait), (0, Make_communicator)] \<and>
   comms (exec (99::nat) (init_world 2) ([1, 0, 0, 0, 0, 1] @ [1, 1, 1, 0, 0]))
     = [Some (2, 99, 0), Some (2, 99, 1)] \<and>
   (\<exists>more. comms (exec (99::nat) (init_world 2) ([1, 0, 0, 0, 0, 1] @ more))
      = map (\<lambda>r. Some (int 2, 99, int r)) [0 ..< 2])"
proof -
  have a: "history (99::nat) (init_world 2) [1, 0, 0, 0, 0, 1]
     = [(0, Store_run), (0, Get_unique_id), (0, Proxy_setitem ''nccl_id''),
        (0, Barrier_check_in), (1, Barrier_check_in)]"
    by code_simp
  have b: "kv (exec (99::nat) (init_world 2) [1, 0, 0, 0, 0, 1]) ''nccl_id'' = Some 99"
    by code_simp
  have c: "comms (exec (99::nat) (init_world 2) [1, 0, 0, 0, 0, 1]) = [None, None]"
    by code_simp
  have d: "history (99::nat) (init_world 2) ([1, 0, 0, 0, 0, 1] @ [1, 1, 1, 0, 0])
     = [(0, Store_run), (0, Get_unique_id), (0, Proxy_setitem ''nccl_id''),
        (0, Barrier_check_in), (1, Barrier_check_in),
        (1, Barrier_wait), (1, Proxy_getitem ''nccl_id''), (1, Make_communicator),
        (0, Barrier_wait), (0, Make_communicator)]"
    by code_simp
  have e: "comms (exec (99::nat) (init_world 2) ([1, 0, 0, 0, 0, 1] @ [1, 1, 1, 0, 0]))
     = [Some (2, 99, 0), Some (2, 99, 1)]"
    by code_simp
  have f: "(1::nat) \<le> 2"
    by simp
  have g: "\<exists>more. comms (exec (99::nat) (init_world 2) ([1, 0, 0, 0, 0, 1] @ more))
      = map (\<lambda>r. Some (int 2, 99, int r)) [0 ..< 2]"
    using construction_agrees_on_identifier [OF f, of 99 "[1, 0, 0, 0, 0, 1]", unfolded Let_def]
    by blast
  from a b c d e f g show ?thesis by blast
qed

end
